theory Spec2Isabelle
  imports Main "HOL-Library.AList" "HOL-Library.Multiset"
begin

section \<open>Python values and strings\<close>

text \<open>
  The gate is Python 2 code. A configuration dictionary holds strings read from the
  file and the integers the checks put in (\<open>conf['max_wal_senders'] = 5\<close>), so a
  value is one or the other.
\<close>

datatype pyval = PStr string | PInt int

datatype error =
    GateException string
  | IOError string
  | OSError string
  | TypeError string
  | PyException string
  | SysExit nat

text \<open>\<open>str(n)\<close> for an integer: decimal digits, with a minus sign.\<close>

definition digit :: "nat \<Rightarrow> char" where
  "digit d = ''0123456789'' ! (d mod 10)"

function str_nat :: "nat \<Rightarrow> string" where
  "str_nat n = (if n < 10 then [digit n] else str_nat (n div 10) @ [digit (n mod 10)])"
  by pat_completeness auto
termination
  by (relation "measure (\<lambda>n. n)") auto

declare str_nat.simps [simp del]

definition str_int :: "int \<Rightarrow> string" where
  "str_int i = (if i < 0 then CHR ''-'' # str_nat (nat (- i)) else str_nat (nat i))"

fun py_str :: "pyval \<Rightarrow> string" where
  "py_str (PStr s) = s"
| "py_str (PInt i) = str_int i"

text \<open>\<open>str(conf.get(item, None))\<close>: the string of a missing key is \<open>'None'\<close>.\<close>

fun py_str_opt :: "pyval option \<Rightarrow> string" where
  "py_str_opt None = ''None''"
| "py_str_opt (Some v) = py_str v"

text \<open>Truth value of \<open>conf.get(k)\<close>: \<open>None\<close>, the empty string and 0 are false.\<close>

fun truthy :: "pyval option \<Rightarrow> bool" where
  "truthy None = False"
| "truthy (Some (PStr s)) = (s \<noteq> [])"
| "truthy (Some (PInt i)) = (i \<noteq> 0)"

text \<open>\<open>a < b\<close> on byte strings compares them lexicographically by byte value.\<close>

fun str_lt :: "string \<Rightarrow> string \<Rightarrow> bool" where
  "str_lt [] [] = False"
| "str_lt [] (y # ys) = True"
| "str_lt (x # xs) [] = False"
| "str_lt (x # xs) (y # ys) =
     ((of_char x :: nat) < of_char y \<or> (x = y \<and> str_lt xs ys))"

text \<open>
  \<open>a < b\<close> in Python 2 between values of any two types: numbers compare by value,
  strings by bytes, and a number is smaller than any string.
\<close>

fun py_lt :: "pyval \<Rightarrow> pyval \<Rightarrow> bool" where
  "py_lt (PStr a) (PStr b) = str_lt a b"
| "py_lt (PInt a) (PInt b) = (a < b)"
| "py_lt (PInt a) (PStr b) = True"
| "py_lt (PStr a) (PInt b) = False"

text \<open>\<open>str.strip()\<close> removes the six ASCII whitespace characters on both sides.\<close>

definition is_space :: "char \<Rightarrow> bool" where
  "is_space c = (c \<in> set [CHR '' '', CHR 0x09, CHR 0x0A, CHR 0x0B, CHR 0x0C, CHR 0x0D])"

definition strip :: "string \<Rightarrow> string" where
  "strip s = rev (dropWhile is_space (rev (dropWhile is_space s)))"

definition startswith :: "string \<Rightarrow> string \<Rightarrow> bool" where
  "startswith s p = (take (length p) s = p)"

text \<open>\<open>sep.join(xs)\<close>.\<close>

fun join :: "string \<Rightarrow> string list \<Rightarrow> string" where
  "join sep [] = []"
| "join sep [x] = x"
| "join sep (x # y # ys) = x @ sep @ join sep (y # ys)"

text \<open>\<open>s.split(c)\<close> for a single character: never empty, \<open>''.split(c) == ['']\<close>.\<close>

fun split_on :: "char \<Rightarrow> string \<Rightarrow> string list" where
  "split_on c [] = [[]]"
| "split_on c (x # xs) =
     (if x = c then [] # split_on c xs
      else (case split_on c xs of [] \<Rightarrow> [[x]] | p # ps \<Rightarrow> (x # p) # ps))"

text \<open>\<open>s.split(c, 1)\<close>: one element when \<open>c\<close> does not occur, else the two sides of
  its first occurrence.\<close>

definition split1 :: "char \<Rightarrow> string \<Rightarrow> string list" where
  "split1 c s =
     (if c \<in> set s then [takeWhile (\<lambda>x. x \<noteq> c) s, tl (dropWhile (\<lambda>x. x \<noteq> c) s)]
      else [s])"

text \<open>\<open>f.readlines()\<close>: the lines of a text, each with its newline; a last line
  without one is kept, and nothing follows a final newline.\<close>

fun readlines :: "string \<Rightarrow> string list" where
  "readlines [] = []"
| "readlines (c # cs) =
     (if c = CHR 0x0A then [c] # readlines cs
      else (case readlines cs of [] \<Rightarrow> [[c]] | l # ls \<Rightarrow> (c # l) # ls))"

text \<open>A Python literal written with single quotes inside its double quotes, such
  as \<open>"'/bin/true'"\<close>.\<close>

definition squoted :: "string \<Rightarrow> string" where
  "squoted s = CHR 0x27 # s @ [CHR 0x27]"

text \<open>\<open>str(el).zfill(2)\<close> on a field of \<open>time.localtime()\<close>.\<close>

definition zfill2 :: "string \<Rightarrow> string" where
  "zfill2 s = replicate (2 - length s) CHR ''0'' @ s"

section \<open>Dictionaries\<close>

text \<open>
  A Python 2 dictionary is an association list with distinct keys: \<open>d.get(k)\<close> is
  \<open>map_of d k\<close> and \<open>d[k] = v\<close> is \<open>AList.update k v d\<close>. Python 2 iterates over a
  dictionary in the order of its hash table, which the language leaves open;
  \<open>d.items()\<close> is therefore the list sorted (stably) by a hash function that is a
  parameter of the model, and every theorem holds for every hash function.
\<close>

type_synonym pydict = "(string \<times> pyval) list"

definition dict_items :: "(string \<Rightarrow> nat) \<Rightarrow> pydict \<Rightarrow> (string \<times> pyval) list" where
  "dict_items h d = sort_key (\<lambda>kv. h (fst kv)) d"

section \<open>The host: files, the server process, external commands\<close>

text \<open>
  The world the gate acts on. \<open>files\<close> are the regular files with their content,
  \<open>dirs\<close> the directories; \<open>running\<close> is what \<open>_get_db_status\<close> observes (the pid
  file names a live process); \<open>events\<close> are the external commands issued through
  \<open>os.system\<close> and the like, oldest first; \<open>out\<close> is what the gate prints, one
  entry for every \<open>print\<close>, standard output and standard error together. A
  path is the string the gate passes to the operating system; a configuration path
  is a regular file or absent. \<open>os.rename\<close> and \<open>open\<close> fail when the directory
  of their target is missing, and \<open>shutil.rmtree\<close> removes what lies below the
  directory its argument names, however the argument spells it. Symbolic links,
  permissions and a full disk are not in the model.
\<close>

datatype event =
    PgCtlStart
  | PgCtlStop
  | CleanupPids
  | Mkdir string
  | BaseBackup string
  | TarCreate string string
  | TarExtract string string
  | Rmtree string
  | Move string string

record world =
  files :: "string \<rightharpoonup> string"
  dirs :: "string \<Rightarrow> bool"
  running :: bool
  events :: "event list"
  out :: "string list"

text \<open>
  What the gate reads from the host and cannot decide itself: the clock, the hash
  order of dictionaries, the physical memory, the answers of \<open>du\<close> and \<open>df\<close>,
  whether \<open>pg_ctl\<close> brings the server up or down, the archive that
  \<open>pg_basebackup\<close> leaves behind, the directory \<open>tempfile.mkdtemp\<close> makes and
  the cluster root found in an unpacked backup.
\<close>

record env =
  localtime :: "nat list"
  hash :: "string \<Rightarrow> nat"
  total_memory :: "int option"
  du :: "string \<Rightarrow> int"
  df_avail :: "string \<Rightarrow> int"
  start_ok :: bool
  stop_ok :: bool
  basebackup :: "string option"
  temp_dir :: string
  backup_root :: "string option"

definition path_exists :: "world \<Rightarrow> string \<Rightarrow> bool" where
  "path_exists w p = (p \<noteq> [] \<and> (files w p \<noteq> None \<or> dirs w p))"

text \<open>\<open>os.path.dirname\<close>.\<close>

definition dirname :: "string \<Rightarrow> string" where
  "dirname p =
     (let head = rev (dropWhile (\<lambda>c. c \<noteq> CHR ''/'') (rev p)) in
      if head \<noteq> [] \<and> head \<noteq> replicate (length head) CHR ''/''
      then rev (dropWhile (\<lambda>c. c = CHR ''/'') (rev head))
      else head)"

text \<open>
  The directory a path lies in is there: the current directory for a bare name,
  the root, or a directory of the world.
\<close>

definition parent_exists :: "world \<Rightarrow> string \<Rightarrow> bool" where
  "parent_exists w p = (list_all (\<lambda>c. c = CHR ''/'') (dirname p) \<or> dirs w (dirname p))"

text \<open>
  The node a path names: its components, with empty ones and \<open>.\<close> dropped and
  \<open>..\<close> taken back, as the operating system walks them. \<open>within d p\<close>: the path
  \<open>p\<close> names the node of \<open>d\<close> or one below it.
\<close>

definition absolute :: "string \<Rightarrow> bool" where
  "absolute p = startswith p ''/''"

definition components :: "string \<Rightarrow> string list" where
  "components p =
     fold (\<lambda>c acc.
             if c = [] \<or> c = ''.'' then acc
             else if c \<noteq> ''..'' \<or> (\<not> absolute p \<and> acc = []) \<or> (acc \<noteq> [] \<and> last acc = ''..'')
             then acc @ [c]
             else butlast acc)
          (split_on CHR ''/'' p) []"

definition within :: "string \<Rightarrow> string \<Rightarrow> bool" where
  "within d p =
     (absolute p = absolute d \<and> take (length (components d)) (components p) = components d)"

definition say :: "string \<Rightarrow> world \<Rightarrow> world" where
  "say msg w = w\<lparr>out := out w @ [msg]\<rparr>"

definition emit :: "event \<Rightarrow> world \<Rightarrow> world" where
  "emit e w = w\<lparr>events := events w @ [e]\<rparr>"

section \<open>Reading and writing configuration files\<close>

text \<open>
  One line of \<open>_get_conf\<close>:
  \<open>k, v = [el.strip() for el in line.split('#')[0].strip().split('=', 1)]\<close>.
  The unpacking fails when there is no \<open>=\<close>.
\<close>

definition parse_line :: "string \<Rightarrow> (string \<times> string) option" where
  "parse_line line =
     (case split1 CHR ''='' (strip (takeWhile (\<lambda>c. c \<noteq> CHR ''#'') line)) of
        [k, v] \<Rightarrow> Some (strip k, strip v)
      | _ \<Rightarrow> None)"

fun get_conf_lines :: "string \<Rightarrow> string list \<Rightarrow> pydict \<Rightarrow> error + pydict" where
  "get_conf_lines conf_path [] conf = Inr conf"
| "get_conf_lines conf_path (l # ls) conf =
     (let line = strip l in
      if line = [] \<or> startswith line ''#'' then get_conf_lines conf_path ls conf
      else (case parse_line line of
              None \<Rightarrow> Inl (GateException (''Cannot parse line ['' @ line @ ''] in '' @ conf_path @ ''.''))
            | Some (k, v) \<Rightarrow> get_conf_lines conf_path ls (AList.update k (PStr v) conf)))"

definition get_conf :: "world \<Rightarrow> string \<Rightarrow> error + pydict" where
  "get_conf w conf_path =
     (case files w conf_path of
        None \<Rightarrow> Inl (GateException (''Cannot open config at \"'' @ conf_path @ ''\".''))
      | Some text \<Rightarrow> get_conf_lines conf_path (readlines text) [])"

text \<open>
  \<open>_write_conf(self, conf_path, *table, **data)\<close>. A caller that passes a
  dictionary with the key \<open>self\<close> or \<open>conf_path\<close> as \<open>**data\<close> gets a
  \<open>TypeError\<close> from the call itself. An existing file is renamed to its backup
  name before anything else, and \<open>os.rename\<close> raises \<open>OSError\<close> when the
  directory of that name is missing: the name is made by cutting the whole path at
  its dots, so this is what happens to a path whose last dot is not in its last
  component. The file is then opened for writing, which raises \<open>IOError\<close> when
  its directory is missing. The \<open>IOError\<close> about two types is raised in the
  branch where neither \<open>data\<close> nor \<open>table\<close> is given.
\<close>

definition time_prefix :: "env \<Rightarrow> string" where
  "time_prefix e = join ''-'' (take 6 (map (\<lambda>el. zfill2 (str_nat el)) (localtime e)))"

definition backup_name :: "env \<Rightarrow> string \<Rightarrow> string" where
  "backup_name e conf_path =
     (let conf_path_new = split_on CHR ''.'' conf_path in
      join ''.'' (butlast conf_path_new) @ ''.'' @ time_prefix e @ ''.'' @ last conf_path_new)"

text \<open>The effect of a rename that succeeds, and of a file written and closed.\<close>

definition move_file :: "string \<Rightarrow> string \<Rightarrow> world \<Rightarrow> world" where
  "move_file src dst w =
     w\<lparr>files := (\<lambda>p. if p = dst then files w src else if p = src then None else files w p)\<rparr>"

definition write_file :: "string \<Rightarrow> string \<Rightarrow> world \<Rightarrow> world" where
  "write_file p text w = w\<lparr>files := (files w)(p \<mapsto> text)\<rparr>"

text \<open>\<open>os.rename(src, dst)\<close>, and \<open>open(p, 'w')\<close> with the writes that follow
  it.\<close>

definition rename :: "string \<Rightarrow> string \<Rightarrow> world \<Rightarrow> error + world" where
  "rename src dst w =
     (if parent_exists w dst then Inr (move_file src dst w)
      else Inl (OSError ''[Errno 2] No such file or directory''))"

definition open_write :: "string \<Rightarrow> string \<Rightarrow> world \<Rightarrow> error + world" where
  "open_write p text w =
     (if parent_exists w p then Inr (write_file p text w)
      else Inl (IOError (''[Errno 2] No such file or directory: '' @ squoted p)))"

definition conf_text :: "(string \<times> pyval) list \<Rightarrow> string" where
  "conf_text items = concat (map (\<lambda>kv. fst kv @ '' = '' @ py_str (snd kv) @ [CHR 0x0A]) items)"

definition table_text :: "string list list \<Rightarrow> string" where
  "table_text table = concat (map (\<lambda>items. join [CHR 0x09] items @ [CHR 0x0A]) table)"

definition write_conf ::
  "env \<Rightarrow> world \<Rightarrow> string \<Rightarrow> string list list \<Rightarrow> pydict \<Rightarrow> (error + string option) \<times> world" where
  "write_conf e w conf_path table data =
     (if ''self'' \<in> fst ` set data \<or> ''conf_path'' \<in> fst ` set data
      then (Inl (TypeError ''_write_conf() got multiple values for keyword argument''), w)
      else
        case (if path_exists w conf_path
              then (case rename conf_path (backup_name e conf_path) w of
                      Inl err \<Rightarrow> Inl err
                    | Inr w1 \<Rightarrow> Inr (Some (backup_name e conf_path), w1))
              else Inr (None, w)) of
          Inl err \<Rightarrow> (Inl err, w)
        | Inr (backup, w1) \<Rightarrow>
            if data \<noteq> [] \<or> table \<noteq> [] then
              (case open_write conf_path
                      (if data \<noteq> [] \<and> table = [] then conf_text (dict_items (hash e) data)
                       else if table \<noteq> [] \<and> data = [] then table_text table
                       else [])
                      w1 of
                 Inl err \<Rightarrow> (Inl err, w1)
               | Inr w2 \<Rightarrow> (Inr backup, w2))
            else (Inl (IOError ''Cannot write two different types of config into the same file!''), w1))"

section \<open>The gate and the server process\<close>

text \<open>
  \<open>self.config\<close> as far as the operations below read it: the data directory from
  the system configuration, and the \<open>data_directory\<close> setting that \<open>__init__\<close>
  asks the server for, which is only there when the server was running then.
\<close>

record gate =
  pcnf_pg_data :: string
  pcnf_data_directory :: "string option"

definition seq :: "error option \<times> world \<Rightarrow> (world \<Rightarrow> error option \<times> world) \<Rightarrow> error option \<times> world" where
  "seq r f = (case r of (None, w) \<Rightarrow> f w | (Some err, w) \<Rightarrow> (Some err, w))"

definition do_db_start :: "env \<Rightarrow> world \<Rightarrow> world" where
  "do_db_start e w =
     (let w1 = say (''Starting core...'' @ [CHR 0x09]) w in
      if running w1 then say ''failed'' w1
      else
        let w2 = emit PgCtlStart (emit CleanupPids w1);
            w3 = w2\<lparr>running := start_ok e\<rparr>
        in say (if start_ok e then ''done'' else ''failed'') w3)"

definition do_db_stop :: "gate \<Rightarrow> env \<Rightarrow> world \<Rightarrow> error option \<times> world" where
  "do_db_stop g e w =
     (let w1 = say (''Stopping core...'' @ [CHR 0x09]) w in
      if \<not> running w1 then (None, say ''failed'' w1)
      else if pcnf_data_directory g = None \<or> pcnf_data_directory g = Some []
      then (Some (GateException ''Cannot find data directory.''), w1)
      else
        let w2 = emit PgCtlStop w1;
            w3 = w2\<lparr>running := \<not> stop_ok e\<rparr>;
            w4 = say (if stop_ok e then ''done'' else ''failed'') w3
        in (None, emit CleanupPids w4))"

definition do_db_status :: "world \<Rightarrow> world" where
  "do_db_status w = say (''Database is '' @ (if running w then ''online'' else ''offline'')) w"


section \<open>The tuner\<close>

function br_loop :: "int \<Rightarrow> int \<Rightarrow> int" where
  "br_loop v m = (if v > 0x10 then br_loop (v div 2) (m * 2) else m * v)"
  by pat_completeness auto
termination
  by (relation "measure (\<lambda>(v, m). nat v)") auto

declare br_loop.simps [simp del]

definition br :: "int \<Rightarrow> int" where
  "br v = br_loop v 1"

definition toMB :: "int \<Rightarrow> pyval" where
  "toMB v = PStr (str_int (v div 0x400) @ ''MB'')"

definition estimate :: "env \<Rightarrow> error + pydict" where
  "estimate e =
     (let KB = 0x400; MB = KB * 0x400 in
      case total_memory e of
        None \<Rightarrow> Inl (PyException ''Cannot get total memory of this system'')
      | Some mem0 \<Rightarrow>
          if mem0 = 0 then Inl (PyException ''Cannot get total memory of this system'')
          else
            let mem = mem0 div KB in
            if mem > 0xff * MB
            then Inl (PyException ''This is a low memory system and is not supported!'')
            else Inr
              (AList.update ''max_connections'' (PInt 80)
              (AList.update ''default_statistics_target'' (PInt 10)
              (AList.update ''constraint_exclusion'' (PStr ''off'')
              (AList.update ''wal_buffers'' (toMB (0x200 * 8))
              (AList.update ''checkpoint_completion_target'' (PStr ''0.7'')
              (AList.update ''checkpoint_segments'' (PInt 8)
              (AList.update ''maintenance_work_mem''
                 (toMB (br (if mem div 0x10 > MB then MB else mem div 0x10)))
              (AList.update ''work_mem'' (toMB (br (mem div 80)))
              (AList.update ''effective_cache_size'' (toMB (br (mem * 3 div 4)))
              (AList.update ''shared_buffers'' (toMB (br (mem div 4))) [])))))))))))"

section \<open>The system check\<close>

text \<open>The tuner's loop: \<open>changed\<close> is raised by the first item whose string
  differs from the string of the current value; every item is stored.\<close>

definition tune_item :: "string \<times> pyval \<Rightarrow> pydict \<times> bool \<Rightarrow> pydict \<times> bool" where
  "tune_item iv cc =
     (AList.update (fst iv) (snd iv) (fst cc),
      (if \<not> snd cc \<and> py_str_opt (map_of (fst cc) (fst iv)) \<noteq> py_str (snd iv) then True
       else snd cc))"

definition autotune :: "(string \<times> pyval) list \<Rightarrow> pydict \<times> bool \<Rightarrow> pydict \<times> bool" where
  "autotune items cc = fold tune_item items cc"

text \<open>The rules on \<open>postgresql.conf\<close>, in the order of the source. The first one
  stores the new level and leaves \<open>changed\<close> as it is.\<close>

definition rule_wal_level :: "pydict \<times> bool \<Rightarrow> pydict \<times> bool" where
  "rule_wal_level cc =
     (if \<not> truthy (map_of (fst cc) ''wal_level'')
         \<or> map_of (fst cc) ''wal_level'' = Some (PStr ''minimal'')
      then (AList.update ''wal_level'' (PStr ''archive'') (fst cc), snd cc)
      else cc)"

definition rule_max_wal_senders :: "pydict \<times> bool \<Rightarrow> pydict \<times> bool" where
  "rule_max_wal_senders cc =
     (if \<not> truthy (map_of (fst cc) ''max_wal_senders'')
         \<or> (case map_of (fst cc) ''max_wal_senders'' of
               None \<Rightarrow> False
             | Some v \<Rightarrow> py_lt v (PStr ''5''))
      then (AList.update ''max_wal_senders'' (PInt 5) (fst cc), True)
      else cc)"

definition rule_wal_keep_segments :: "pydict \<times> bool \<Rightarrow> pydict \<times> bool" where
  "rule_wal_keep_segments cc =
     (if map_of (fst cc) ''wal_keep_segments'' \<in> {None, Some (PStr ''0'')}
      then (AList.update ''wal_keep_segments'' (PInt 64) (fst cc), True)
      else cc)"

definition rule_archive_mode :: "pydict \<times> bool \<Rightarrow> pydict \<times> bool" where
  "rule_archive_mode cc =
     (if map_of (fst cc) ''archive_mode'' \<noteq> Some (PStr ''on'')
      then (AList.update ''archive_mode'' (PStr ''on'') (fst cc), True)
      else cc)"

definition rule_archive_command :: "pydict \<times> bool \<Rightarrow> pydict \<times> bool" where
  "rule_archive_command cc =
     (if map_of (fst cc) ''archive_command'' \<noteq> Some (PStr (squoted ''/bin/true''))
      then (AList.update ''archive_command'' (PStr (squoted ''/bin/true'')) (fst cc), True)
      else cc)"

definition rule_standard_conforming_strings :: "pydict \<times> bool \<Rightarrow> pydict \<times> bool" where
  "rule_standard_conforming_strings cc =
     (if map_of (fst cc) ''standard_conforming_strings'' \<noteq> Some (PStr (squoted ''off''))
      then (AList.update ''standard_conforming_strings'' (PStr (squoted ''off'')) (fst cc), True)
      else cc)"

definition rule_bytea_output :: "pydict \<times> bool \<Rightarrow> pydict \<times> bool" where
  "rule_bytea_output cc =
     (if map_of (fst cc) ''bytea_output'' \<noteq> Some (PStr (squoted ''escape''))
      then (AList.update ''bytea_output'' (PStr (squoted ''escape'')) (fst cc), True)
      else cc)"

definition check_conf :: "pydict \<times> bool \<Rightarrow> pydict \<times> bool" where
  "check_conf cc =
     rule_bytea_output (rule_standard_conforming_strings (rule_archive_command
       (rule_archive_mode (rule_wal_keep_segments (rule_max_wal_senders
         (rule_wal_level cc))))))"

text \<open>
  \<open>pg_hba.conf\<close>: every line that is not blank and not a comment becomes the list
  of its fields, \<open>filter(None, line.replace("\t", " ").split(' '))\<close>.
\<close>

definition hba_fields :: "string \<Rightarrow> string list" where
  "hba_fields line =
     filter (\<lambda>t. t \<noteq> []) (split_on CHR '' '' (map (\<lambda>c. if c = CHR 0x09 then CHR '' '' else c) line))"

fun parse_hba :: "string list \<Rightarrow> string list list" where
  "parse_hba [] = []"
| "parse_hba (l # ls) =
     (let line = strip l in
      if line = [] \<or> startswith line ''#'' then parse_hba ls
      else hba_fields line # parse_hba ls)"

definition replication_cfg :: "string list" where
  "replication_cfg = [''local'', ''replication'', ''postgres'', ''peer'']"

definition check_hba :: "string list list \<Rightarrow> string list list \<times> bool" where
  "check_hba pg_hba_conf =
     (if replication_cfg \<notin> set pg_hba_conf then (pg_hba_conf @ [replication_cfg], True)
      else (pg_hba_conf, False))"

text \<open>
  The first half of \<open>do_system_check\<close>, up to the commit: the new configuration
  with \<open>changed\<close>, and the new rule table with \<open>hba_changed\<close>. Nothing is written
  here; each failure is the exception the source raises at that point.
\<close>

definition system_check_plan ::
  "gate \<Rightarrow> env \<Rightarrow> bool \<Rightarrow> world \<Rightarrow> error + ((pydict \<times> bool) \<times> (string list list \<times> bool))" where
  "system_check_plan g e autotuning w =
     (case get_conf w (pcnf_pg_data g @ ''/postgresql.conf'') of
        Inl err \<Rightarrow> Inl err
      | Inr conf \<Rightarrow>
          (case (if autotuning
                 then (case estimate e of
                         Inl err \<Rightarrow> Inl err
                       | Inr cfg \<Rightarrow> Inr (autotune (dict_items (hash e) cfg) (conf, False)))
                 else Inr (conf, False)) of
             Inl err \<Rightarrow> Inl err
           | Inr cc \<Rightarrow>
               (case files w (pcnf_pg_data g @ ''/pg_hba.conf'') of
                  None \<Rightarrow> Inl (IOError ''No such file or directory'')
                | Some text \<Rightarrow> Inr (check_conf cc, check_hba (parse_hba (readlines text))))))"

text \<open>The commit: both files are written only if their own flag is set, and the
  server is stopped and started if either is.\<close>

definition commit_changes ::
  "gate \<Rightarrow> env \<Rightarrow> (pydict \<times> bool) \<Rightarrow> (string list list \<times> bool) \<Rightarrow> world \<Rightarrow> error option \<times> world" where
  "commit_changes g e cc hh w =
     (if snd cc \<or> snd hh then
        seq (None, say ''INFO: Database needs to be restarted.'' w) (\<lambda>w1.
        seq (if snd cc then
               (case write_conf e w1 (pcnf_pg_data g @ ''/postgresql.conf'') [] (fst cc) of
                  (Inl err, w2) \<Rightarrow> (Some err, w2)
                | (Inr None, w2) \<Rightarrow> (None, w2)
                | (Inr (Some conf_bk), w2) \<Rightarrow>
                    (None, say (''INFO: Wrote new general configuration. Backup as '' @ conf_bk) w2))
             else (None, w1)) (\<lambda>w3.
        seq (if snd hh then
               (case write_conf e w3 (pcnf_pg_data g @ ''/pg_hba.conf'') (fst hh) [] of
                  (Inl err, w4) \<Rightarrow> (Some err, w4)
                | (Inr None, w4) \<Rightarrow> (None, w4)
                | (Inr (Some conf_bk), w4) \<Rightarrow>
                    (None, say (''INFO: Wrote new client auth configuration. Backup as '' @ conf_bk) w4))
             else (None, w3)) (\<lambda>w5.
        seq (if running w5 then do_db_stop g e w5 else (None, w5)) (\<lambda>w6.
        (None, do_db_status (do_db_start e w6))))))
      else (None, say ''INFO: No changes required.'' w))"

definition do_system_check :: "gate \<Rightarrow> env \<Rightarrow> bool \<Rightarrow> world \<Rightarrow> error option \<times> world" where
  "do_system_check g e autotuning w =
     (case system_check_plan g e autotuning w of
        Inl err \<Rightarrow> (Some err, w)
      | Inr (cc, hh) \<Rightarrow>
          seq (commit_changes g e cc hh w) (\<lambda>w1. (None, say ''System check finished'' w1)))"

section \<open>Hot backups\<close>

text \<open>\<open>conf.get('archive_command', '')\<close>.\<close>

definition archive_command :: "pydict \<Rightarrow> pyval" where
  "archive_command conf = (case map_of conf ''archive_command'' of None \<Rightarrow> PStr [] | Some v \<Rightarrow> v)"

definition enabled_command :: "string \<Rightarrow> string" where
  "enabled_command backup_dir =
     squoted (''/usr/bin/smdba-pgarchive --source \"%p\" --destination \"'' @ backup_dir @ ''/%f\"'')"


text \<open>\<open>shutil.rmtree(d)\<close> on a directory that exists: every path that names the
  directory or something below it is gone.\<close>

definition rmtree :: "string \<Rightarrow> world \<Rightarrow> world" where
  "rmtree d w =
     w\<lparr>files := (\<lambda>p. if within d p then None else files w p),
       dirs := (\<lambda>p. if within d p then False else dirs w p)\<rparr>"

definition remove_file :: "string \<Rightarrow> world \<Rightarrow> world" where
  "remove_file p w = w\<lparr>files := (files w)(p := None)\<rparr>"

definition mkdir :: "string \<Rightarrow> world \<Rightarrow> world" where
  "mkdir d w = w\<lparr>dirs := (dirs w)(d := True)\<rparr>"




section \<open>Restoring from a backup\<close>

text \<open>The loop of \<open>do_backup_status\<close> over the words of the archive command: the
  word after the first one that starts with \<open>--destination\<close>.\<close>

fun find_destination :: "string list \<Rightarrow> bool \<Rightarrow> string option" where
  "find_destination [] found_dest = None"
| "find_destination (c # cmd) found_dest =
     (if startswith c ''--destination'' then find_destination cmd True
      else if found_dest then Some c
      else find_destination cmd found_dest)"

text \<open>
  \<open>do_backup_status('--silent')\<close>: the destination directory and whether it
  exists. Listing a destination that is not a directory raises. The modification
  times and the \<open>df\<close> figures it also collects are not returned in silent mode.
\<close>

definition do_backup_status :: "gate \<Rightarrow> world \<Rightarrow> error + (string \<times> bool)" where
  "do_backup_status g w =
     (case get_conf w (pcnf_pg_data g @ ''/postgresql.conf'') of
        Inl err \<Rightarrow> Inl err
      | Inr conf \<Rightarrow>
          let cmd = split_on CHR '' '' (py_str (archive_command conf));
              (backup_dst, backup_on) =
                 (case find_destination cmd False of
                    None \<Rightarrow> ([], False)
                  | Some component \<Rightarrow>
                      (let d = dirname (filter (\<lambda>c. c \<noteq> CHR 0x22 \<and> c \<noteq> CHR 0x27) component)
                       in (d, path_exists w d)))
          in if backup_dst \<noteq> [] \<and> \<not> dirs w backup_dst
             then Inl (OSError ''listdir'')
             else Inr (backup_dst, backup_on))"

definition rst_shutdown_db :: "gate \<Rightarrow> env \<Rightarrow> world \<Rightarrow> error option \<times> world" where
  "rst_shutdown_db g e w =
     (if running w then
        seq (do_db_stop g e w) (\<lambda>w1.
          let w2 = do_db_status w1 in
          if running w2 then (Some (SysExit 1), say ''Error: Unable to stop database.'' w2)
          else (None, w2))
      else (None, w))"

definition rst_save_current_cluster :: "gate \<Rightarrow> env \<Rightarrow> world \<Rightarrow> world" where
  "rst_save_current_cluster g e w =
     (let old_data_dir = dirname (pcnf_pg_data g) @ ''/data.old'';
          w1 = (if \<not> path_exists w old_data_dir
                then say (''Created \"'' @ old_data_dir @ ''\" directory.'') (mkdir old_data_dir w)
                else w);
          w2 = say (''Moving broken cluster:'' @ [CHR 0x09] @ '' '') w1;
          destination_tar = old_data_dir @ ''/data.'' @ time_prefix e @ ''.tar.gz''
      in emit (TarCreate destination_tar (pcnf_pg_data g)) w2)"

definition rst_replace_new_backup :: "gate \<Rightarrow> env \<Rightarrow> string \<Rightarrow> world \<Rightarrow> world" where
  "rst_replace_new_backup g e backup_dst w =
     (let w1 = say (''Remove broken cluster:'' @ [CHR 0x09] @ '' '')
                 (say (''Restoring from backup:'' @ [CHR 0x09] @ '' '') w);
          w2 = say ''finished'' (emit (Rmtree (pcnf_pg_data g)) (rmtree (pcnf_pg_data g) w1));
          w3 = say (''Unarchiving new backup:'' @ [CHR 0x09] @ '' '') w2;
          w4 = emit (TarExtract (backup_dst @ ''/base.tar.gz'') (temp_dir e)) (mkdir (temp_dir e) w3);
          w5 = say (''Restore cluster:'' @ [CHR 0x09] @ '' '') w4;
          w6 = emit (Move (case backup_root e of None \<Rightarrow> ''None'' | Some r \<Rightarrow> r)
                          (dirname (pcnf_pg_data g) @ ''/data'')) w5;
          w7 = say (''Write recovery.conf:'' @ [CHR 0x09] @ '' '') (say ''finished'' w6);
          w8 = write_file (dirname (pcnf_pg_data g) @ ''/data/recovery.conf'')
                 (''restore_command = '' @ squoted (''cp '' @ backup_dst @ ''/%f %p'') @ [CHR 0x0A]) w7
      in say ''finished'' w8)"

text \<open>
  \<open>do_backup_restore\<close>. The test that decides whether the restore goes ahead is
  on whole numbers of bytes, \<open>disk_size - curr_ts_size - bckp_ts_size < 0x40000000\<close>;
  the source's \<open>ratio\<close> enters only the "Predicted space" line it prints before
  the test. That line and the three size lines before it go through
  \<open>size_pretty\<close> of the base class and are not in \<open>out\<close>.
\<close>

definition do_backup_restore :: "gate \<Rightarrow> env \<Rightarrow> world \<Rightarrow> error option \<times> world" where
  "do_backup_restore g e w =
     (case do_backup_status g w of
        Inl err \<Rightarrow> (Some err, w)
      | Inr (backup_dst, backup_on) \<Rightarrow>
          if \<not> backup_on then (Some (SysExit 1), say ''No backup snapshots are available.'' w)
          else
            let curr_ts_size = du e (pcnf_pg_data g);
                bckp_ts_size = du e backup_dst;
                disk_size = df_avail e (pcnf_pg_data g)
            in if disk_size - curr_ts_size - bckp_ts_size < 0x40000000
               then (Some (SysExit 1),
                     say ''At least 1GB free disk space required after backup restoration.'' w)
               else
                 seq (rst_shutdown_db g e w) (\<lambda>w1.
                   (None, do_db_start e
                            (rst_replace_new_backup g e backup_dst
                               (rst_save_current_cluster g e w1)))))"

text \<open>The condition as the specification words it: what is left after the packed
  current cluster (at the ratio 0.134) and the backup is at least 1 GiB.\<close>

definition spec_space_ok :: "int \<Rightarrow> int \<Rightarrow> int \<Rightarrow> bool" where
  "spec_space_ok available current_size backup_size =
     (1000 * available - 134 * current_size - 1000 * backup_size \<ge> 1000 * 0x40000000)"

section \<open>Example hosts\<close>

text \<open>
  A host with its cluster in \<open>/var/lib/pgsql/data\<close> and a running server, at
  09:05:03 on 4 July 2012, with 4 GiB of memory. Its dictionaries iterate in
  insertion order. \<open>du\<close> reports 100 GiB for the cluster and 40 GiB for anything
  else; 100 GiB are available on the partition.
\<close>

definition GiB :: int where
  "GiB = 0x40000000"

definition example_env :: env where
  "example_env =
     \<lparr>localtime = [2012, 7, 4, 9, 5, 3, 2, 186, 1], hash = (\<lambda>k. 0),
      total_memory = Some (4 * GiB),
      du = (\<lambda>p. if p = ''/var/lib/pgsql/data'' then 100 * GiB else 40 * GiB),
      df_avail = (\<lambda>p. 100 * GiB),
      start_ok = True, stop_ok = True, basebackup = Some ''tar'',
      temp_dir = ''/tmp/tmpA'', backup_root = Some ''/tmp/tmpA/data''\<rparr>"

definition example_gate :: gate where
  "example_gate =
     \<lparr>pcnf_pg_data = ''/var/lib/pgsql/data'',
      pcnf_data_directory = Some ''/var/lib/pgsql/data''\<rparr>"

definition lines_text :: "string list \<Rightarrow> string" where
  "lines_text ls = concat (map (\<lambda>l. l @ [CHR 0x0A]) ls)"

text \<open>A \<open>postgresql.conf\<close> that meets every rule of the system check but the
  first: its WAL level is \<open>minimal\<close>.\<close>

definition minimal_conf :: string where
  "minimal_conf = lines_text
     [''wal_level = minimal'',
      ''max_wal_senders = 5'',
      ''wal_keep_segments = 64'',
      ''archive_mode = on'',
      ''archive_command = '' @ squoted ''/bin/true'',
      ''standard_conforming_strings = '' @ squoted ''off'',
      ''bytea_output = '' @ squoted ''escape'']"

text \<open>The dictionary read from a file that meets every rule, with ten WAL
  senders.\<close>

definition ten_senders_conf :: pydict where
  "ten_senders_conf =
     [(''wal_level'', PStr ''archive''),
      (''max_wal_senders'', PStr ''10''),
      (''wal_keep_segments'', PStr ''64''),
      (''archive_mode'', PStr ''on''),
      (''archive_command'', PStr (squoted ''/bin/true'')),
      (''standard_conforming_strings'', PStr (squoted ''off'')),
      (''bytea_output'', PStr (squoted ''escape''))]"

definition peer_hba :: string where
  "peer_hba = lines_text
     [''# TYPE  DATABASE  USER  METHOD'',
      ''local   all       all   peer'',
      ''local replication postgres peer'']"

definition example_world :: world where
  "example_world =
     \<lparr>files = [''/var/lib/pgsql/data/postgresql.conf'' \<mapsto> minimal_conf,
               ''/var/lib/pgsql/data/pg_hba.conf'' \<mapsto> peer_hba],
      dirs = (\<lambda>p. p \<in> set [''/etc'', ''/var/lib/pgsql'', ''/var/lib/pgsql/data'', ''/backup'']),
      running = True, events = [], out = []\<rparr>"

text \<open>The same host with hot backups to \<open>/backup\<close> switched on.\<close>

definition archiving_conf :: string where
  "archiving_conf = lines_text
     [''wal_level = archive'',
      ''archive_mode = on'',
      ''archive_command = '' @ enabled_command ''/backup'']"

definition archiving_world :: world where
  "archiving_world =
     example_world\<lparr>files := (files example_world)
        (''/var/lib/pgsql/data/postgresql.conf'' \<mapsto> archiving_conf)\<rparr>"

section \<open>Notions used in the statements\<close>

text \<open>
  A string that a configuration line carries unchanged: \<open>strip\<close> leaves it as it
  is, and it has no comment sign and no line break. A key must also be free of
  the equals sign, at which a line is cut.
\<close>

definition plain :: "string \<Rightarrow> bool" where
  "plain s = (strip s = s \<and> CHR ''#'' \<notin> set s \<and> CHR 0x0A \<notin> set s)"

definition plain_key :: "string \<Rightarrow> bool" where
  "plain_key k = (plain k \<and> CHR ''='' \<notin> set k)"

definition plain_item :: "string \<times> pyval \<Rightarrow> bool" where
  "plain_item kv = (plain_key (fst kv) \<and> plain (py_str (snd kv)))"

text \<open>A dictionary that can be passed as \<open>**data\<close>: its keys are distinct, as in
  any dictionary, and none is the name of a positional parameter.\<close>

definition kwargs_ok :: "pydict \<Rightarrow> bool" where
  "kwargs_ok d = (distinct (map fst d) \<and> ''self'' \<notin> fst ` set d \<and> ''conf_path'' \<notin> fst ` set d)"

definition is_str :: "pyval \<Rightarrow> bool" where
  "is_str v = (case v of PStr s \<Rightarrow> True | PInt i \<Rightarrow> False)"

text \<open>What a dictionary is once written and read: every value is its string.\<close>

definition stringified :: "pydict \<Rightarrow> pydict" where
  "stringified d = map (\<lambda>kv. (fst kv, PStr (py_str (snd kv)))) d"

text \<open>The assignments of a configuration text in the order of its lines: one for
  every line that is not blank, not a comment and has an equals sign.\<close>

definition entries :: "string list \<Rightarrow> (string \<times> pyval) list" where
  "entries ls =
     map (\<lambda>kv. (fst kv, PStr (snd kv)))
       (List.map_filter
          (\<lambda>l. if strip l = [] \<or> startswith (strip l) ''#'' then None else parse_line (strip l))
          ls)"

text \<open>Storing one item, as the loop of \<open>_get_conf\<close> does for every assignment.\<close>

definition upd :: "string \<times> pyval \<Rightarrow> pydict \<Rightarrow> pydict" where
  "upd kv d = AList.update (fst kv) (snd kv) d"

text \<open>A path that can be written: its directory is there, and so is the
  directory of its backup name if something is at the path.\<close>

definition writable :: "env \<Rightarrow> world \<Rightarrow> string \<Rightarrow> bool" where
  "writable e w p =
     (parent_exists w p \<and> (path_exists w p \<longrightarrow> parent_exists w (backup_name e p)))"

text \<open>The first step of a write: the world after the rename of an existing file,
  and the backup path the write returns.\<close>

definition renamed :: "env \<Rightarrow> string \<Rightarrow> world \<Rightarrow> world" where
  "renamed e p w = (if path_exists w p then move_file p (backup_name e p) w else w)"

definition backup_of :: "env \<Rightarrow> string \<Rightarrow> world \<Rightarrow> string option" where
  "backup_of e p w = (if path_exists w p then Some (backup_name e p) else None)"

text \<open>A host whose dictionaries iterate by the length of the key, and a
  configuration file with a comment line, a trailing comment, a blank line and a
  key that occurs twice.\<close>

definition reordering_env :: env where
  "reordering_env = example_env\<lparr>hash := length\<rparr>"

definition commented_conf :: string where
  "commented_conf = lines_text
     [''# settings'', ''listen = 1 # first'', [], ''port = 2'', ''listen = 3'']"

definition commented_world :: world where
  "commented_world = example_world\<lparr>files := [''/etc/pg.conf'' \<mapsto> commented_conf]\<rparr>"

text \<open>A rule table without the replication rule.\<close>

definition bare_hba :: string where
  "bare_hba = lines_text [''# TYPE  DATABASE  USER  METHOD'', ''local   all       all   peer'']"

text \<open>What makes the rules after the first raise \<open>changed\<close>, as a condition on
  the mapping the dictionary stands for.\<close>

definition violated :: "(string \<rightharpoonup> pyval) \<Rightarrow> bool" where
  "violated m =
     ((\<not> truthy (m ''max_wal_senders'')
        \<or> (case m ''max_wal_senders'' of None \<Rightarrow> False | Some v \<Rightarrow> py_lt v (PStr ''5'')))
      \<or> m ''wal_keep_segments'' \<in> {None, Some (PStr ''0'')}
      \<or> m ''archive_mode'' \<noteq> Some (PStr ''on'')
      \<or> m ''archive_command'' \<noteq> Some (PStr (squoted ''/bin/true''))
      \<or> m ''standard_conforming_strings'' \<noteq> Some (PStr (squoted ''off''))
      \<or> m ''bytea_output'' \<noteq> Some (PStr (squoted ''escape'')))"

text \<open>The keys the rules read and store.\<close>

definition policy_keys :: "string list" where
  "policy_keys = [''wal_level'', ''max_wal_senders'', ''wal_keep_segments'', ''archive_mode'',
     ''archive_command'', ''standard_conforming_strings'', ''bytea_output'']"

text \<open>A mapping as it is read back from the file it was written to.\<close>

definition as_read :: "(string \<rightharpoonup> pyval) \<Rightarrow> (string \<rightharpoonup> pyval)" where
  "as_read m = (\<lambda>k. map_option (\<lambda>v. PStr (py_str v)) (m k))"

text \<open>The keys the tuner sets.\<close>

definition tuning_keys :: "string list" where
  "tuning_keys = [''shared_buffers'', ''effective_cache_size'', ''work_mem'',
     ''maintenance_work_mem'', ''checkpoint_segments'', ''checkpoint_completion_target'',
     ''wal_buffers'', ''constraint_exclusion'', ''default_statistics_target'', ''max_connections'']"

text \<open>The tuner's items, in the order the system check takes them; none without
  autotuning.\<close>

definition tuning_items :: "env \<Rightarrow> bool \<Rightarrow> error + (string \<times> pyval) list" where
  "tuning_items e autotuning =
     (if autotuning
      then (case estimate e of Inl err \<Rightarrow> Inl err | Inr cfg \<Rightarrow> Inr (dict_items (hash e) cfg))
      else Inr [])"

text \<open>A host whose configuration sets none of the required parameters, and whose
  rule table lacks the replication rule.\<close>

definition fresh_world :: world where
  "fresh_world =
     \<lparr>files = [''/var/lib/pgsql/data/postgresql.conf'' \<mapsto>
                 lines_text [''max_connections = 100 # default'', ''wal_level = minimal''],
               ''/var/lib/pgsql/data/pg_hba.conf'' \<mapsto> bare_hba],
      dirs = (\<lambda>p. p \<in> set [''/var/lib/pgsql'', ''/var/lib/pgsql/data'']),
      running = True, events = [], out = []\<rparr>"





text \<open>A path that a purge of the directory \<open>d\<close> leaves alone, with the
  directory it lies in.\<close>

definition outside :: "string \<Rightarrow> string \<Rightarrow> bool" where
  "outside d p = (\<not> within d p \<and> \<not> within d (dirname p))"





text \<open>A line that \<open>_get_conf\<close> takes: a blank line, a comment line, or a line with
  an equals sign before any comment sign.\<close>

definition accepted :: "string \<Rightarrow> bool" where
  "accepted l =
     (strip l = [] \<or> startswith (strip l) ''#''
      \<or> CHR ''='' \<in> set (takeWhile (\<lambda>c. c \<noteq> CHR ''#'') (strip l)))"

section \<open>Strings\<close>

lemma is_space_simps [simp]:
  "is_space CHR '' ''" "is_space (CHR 0x0A)" "\<not> is_space CHR ''=''" "\<not> is_space CHR ''#''"
  by (simp_all add: is_space_def)

lemma strip_Nil [simp]: "strip [] = []"
  by (simp add: strip_def)

lemma strip_fixed:
  assumes "strip s = s" and "s \<noteq> []"
  shows "\<not> is_space (hd s)" and "\<not> is_space (last s)"
proof -
  have len: "length (dropWhile is_space (rev (dropWhile is_space s))) = length s"
    using assms(1) by (metis length_rev strip_def)
  have l1: "length (dropWhile is_space s) = length s"
    using len length_dropWhile_le [of is_space "rev (dropWhile is_space s)"]
      length_dropWhile_le [of is_space s] by simp
  then have d1: "dropWhile is_space s = s"
    by (metis length_append takeWhile_dropWhile_id add_cancel_right_left length_0_conv self_append_conv2)
  then show "\<not> is_space (hd s)"
    using assms(2) by (simp add: dropWhile_eq_self_iff)
  from assms(1) d1 have "dropWhile is_space (rev s) = rev s"
    by (metis rev_rev_ident strip_def)
  then show "\<not> is_space (last s)"
    using assms(2) by (simp add: dropWhile_eq_self_iff hd_rev)
qed

lemma strip_core:
  assumes "s \<noteq> []" "\<not> is_space (hd s)" "\<not> is_space (last s)"
    and "list_all is_space a" "list_all is_space b"
  shows "strip (a @ s @ b) = s"
proof -
  have "dropWhile is_space (a @ s @ b) = s @ b"
    using assms by (simp add: dropWhile_append2 list_all_iff dropWhile_eq_self_iff)
  moreover have "dropWhile is_space (rev (s @ b)) = rev s"
  proof -
    have "dropWhile is_space (rev b @ rev s) = dropWhile is_space (rev s)"
      using assms(5) by (intro dropWhile_append2) (simp add: list_all_iff)
    also have "\<dots> = rev s"
      using assms(1,3) by (simp add: dropWhile_eq_self_iff hd_rev)
    finally show ?thesis by simp
  qed
  ultimately show ?thesis by (simp add: strip_def)
qed

lemma strip_spaces:
  assumes "list_all is_space a"
  shows "strip a = []"
proof -
  have d: "dropWhile is_space a = []"
    using assms by (induction a) auto
  show ?thesis unfolding strip_def d by simp
qed

lemma readlines_line:
  "CHR 0x0A \<notin> set l \<Longrightarrow> readlines (l @ CHR 0x0A # rest) = (l @ [CHR 0x0A]) # readlines rest"
  by (induction l) auto

lemma strip_plain_pad:
  assumes "strip k = k" "list_all is_space a" "list_all is_space b"
  shows "strip (a @ k @ b) = k"
proof (cases "k = []")
  case True
  then show ?thesis using assms strip_spaces [of "a @ b"] by simp
next
  case False
  then show ?thesis using assms strip_fixed [of k] strip_core by blast
qed

lemma written_line_strip:
  assumes "strip k = k" "strip v = v"
  shows "strip (k @ '' = '' @ v @ [CHR 0x0A]) =
     k @ (if k = [] then [] else '' '') @ ''='' @ (if v = [] then [] else '' '') @ v"
proof -
  let ?s = "k @ (if k = [] then [] else '' '') @ ''='' @ (if v = [] then [] else '' '') @ v"
  have ne: "?s \<noteq> []" by simp
  have h: "\<not> is_space (hd ?s)"
    using strip_fixed(1) [OF assms(1)] by (cases k) auto
  have l: "\<not> is_space (last ?s)"
    using strip_fixed(2) [OF assms(2)] by (cases "v = []") auto
  have eq: "k @ '' = '' @ v @ [CHR 0x0A] =
      (if k = [] then '' '' else []) @ ?s @ ((if v = [] then '' '' else []) @ [CHR 0x0A])"
    by simp
  show ?thesis
    unfolding eq by (rule strip_core [OF ne h l]) (simp_all)
qed

lemma space_not_eq: "list_all is_space a \<Longrightarrow> CHR ''='' \<notin> set a"
  by (auto simp: list_all_iff)

lemma parse_padded:
  assumes k: "strip k = k" "CHR ''='' \<notin> set k" and v: "strip v = v"
    and a: "list_all is_space a" and b: "list_all is_space b"
    and h: "CHR ''#'' \<notin> set (k @ a @ b @ v)"
    and s: "strip (k @ a @ ''='' @ b @ v) = k @ a @ ''='' @ b @ v"
  shows "parse_line (k @ a @ ''='' @ b @ v) = Some (k, v)"
proof -
  let ?s = "k @ a @ ''='' @ b @ v"
  have tw: "takeWhile (\<lambda>c. c \<noteq> CHR ''#'') ?s = ?s"
    using h by (auto simp: takeWhile_eq_all_conv)
  have ka: "CHR ''='' \<notin> set (k @ a)"
    using k(2) space_not_eq [OF a] by simp
  have t1: "takeWhile (\<lambda>x. x \<noteq> CHR ''='') ((k @ a) @ CHR ''='' # b @ v) = k @ a"
    using ka by (intro takeWhile_append2 [THEN trans]) auto
  have t2: "dropWhile (\<lambda>x. x \<noteq> CHR ''='') ((k @ a) @ CHR ''='' # b @ v) = CHR ''='' # b @ v"
    using ka by (subst dropWhile_append2) auto
  have sp: "split1 CHR ''='' ?s = [k @ a, b @ v]"
    using t1 t2 by (simp add: split1_def)
  have "strip (k @ a) = k" using strip_plain_pad [OF k(1), of "[]" a] a by simp
  moreover have "strip (b @ v) = v" using strip_plain_pad [OF v, of b "[]"] b by simp
  ultimately show ?thesis
    unfolding parse_line_def tw s sp by simp
qed

lemma written_line_parse:
  assumes "plain_key k" "plain v"
  shows "strip (k @ '' = '' @ v @ [CHR 0x0A]) \<noteq> []"
    and "\<not> startswith (strip (k @ '' = '' @ v @ [CHR 0x0A])) ''#''"
    and "parse_line (strip (k @ '' = '' @ v @ [CHR 0x0A])) = Some (k, v)"
proof -
  let ?a = "if k = [] then [] else '' ''" and ?b = "if v = [] then [] else '' ''"
  have k: "strip k = k" "CHR ''='' \<notin> set k" "CHR ''#'' \<notin> set k"
    and v: "strip v = v" "CHR ''#'' \<notin> set v"
    using assms by (simp_all add: plain_key_def plain_def)
  have st: "strip (k @ '' = '' @ v @ [CHR 0x0A]) = k @ ?a @ ''='' @ ?b @ v"
    using written_line_strip [OF k(1) v(1)] by simp
  show "strip (k @ '' = '' @ v @ [CHR 0x0A]) \<noteq> []"
    unfolding st by simp
  show "\<not> startswith (strip (k @ '' = '' @ v @ [CHR 0x0A])) ''#''"
    unfolding st using k(3) by (cases k) (auto simp: startswith_def)
  have idem: "strip (k @ ?a @ ''='' @ ?b @ v) = k @ ?a @ ''='' @ ?b @ v"
  proof -
    have "strip ([] @ (k @ ?a @ ''='' @ ?b @ v) @ []) = k @ ?a @ ''='' @ ?b @ v"
    proof (rule strip_core)
      show "\<not> is_space (hd (k @ ?a @ ''='' @ ?b @ v))"
        using strip_fixed(1) [OF k(1)] by (cases k) auto
      show "\<not> is_space (last (k @ ?a @ ''='' @ ?b @ v))"
        using strip_fixed(2) [OF v(1)] by (cases "v = []") auto
    qed simp_all
    then show ?thesis by simp
  qed
  show "parse_line (strip (k @ '' = '' @ v @ [CHR 0x0A])) = Some (k, v)"
    unfolding st
    by (rule parse_padded [OF k(1,2) v(1) _ _ _ idem]) (use k v in auto)
qed

lemma strip_subset: "set (strip s) \<subseteq> set s"
proof -
  have "set (strip s) \<subseteq> set (dropWhile is_space s)"
    unfolding strip_def using set_dropWhileD by fastforce
  then show ?thesis using set_dropWhileD by fastforce
qed

lemma rev_dropWhile_rev_prefix: "\<exists>w. z = rev (dropWhile P (rev z)) @ w"
  by (metis rev_append rev_rev_ident takeWhile_dropWhile_id)

lemma strip_idem [simp]: "strip (strip x) = strip x"
proof (cases "strip x = []")
  case True
  then show ?thesis by simp
next
  case False
  let ?z = "dropWhile is_space x"
  let ?y = "strip x"
  have y: "?y = rev (dropWhile is_space (rev ?z))" by (simp add: strip_def)
  have dne: "dropWhile is_space (rev ?z) \<noteq> []" using False y by simp
  have l: "\<not> is_space (last ?y)"
    using hd_dropWhile [OF dne] dne by (simp add: y last_rev)
  obtain w where w: "?z = ?y @ w" using rev_dropWhile_rev_prefix [of ?z is_space] y by metis
  have zne: "?z \<noteq> []" using False w by auto
  have "hd ?y = hd ?z" using w False by (metis hd_append2)
  then have h: "\<not> is_space (hd ?y)" using hd_dropWhile [OF zne] by simp
  show ?thesis using strip_core [OF False h l, of "[]" "[]"] by simp
qed

lemma parse_line_plain:
  assumes "parse_line l = Some (k, v)" and "CHR 0x0A \<notin> set l"
  shows "plain_key k" and "plain v"
proof -
  let ?s = "strip (takeWhile (\<lambda>c. c \<noteq> CHR ''#'') l)"
  have sub: "set ?s \<subseteq> set (takeWhile (\<lambda>c. c \<noteq> CHR ''#'') l)" by (rule strip_subset)
  have nh: "CHR ''#'' \<notin> set ?s" using sub by (auto dest: set_takeWhileD)
  have nn: "CHR 0x0A \<notin> set ?s" using sub assms(2) by (auto dest: set_takeWhileD)
  from assms(1) have eq: "CHR ''='' \<in> set ?s"
    and k: "k = strip (takeWhile (\<lambda>x. x \<noteq> CHR ''='') ?s)"
    and v: "v = strip (tl (dropWhile (\<lambda>x. x \<noteq> CHR ''='') ?s))"
    by (auto simp: parse_line_def split1_def split: if_splits)
  have ks: "set k \<subseteq> set (takeWhile (\<lambda>x. x \<noteq> CHR ''='') ?s)" unfolding k by (rule strip_subset)
  have vs: "set v \<subseteq> set ?s"
    unfolding v using strip_subset [of "tl (dropWhile (\<lambda>x. x \<noteq> CHR ''='') ?s)"]
    by (metis (no_types, lifting) list.set_sel(2) set_dropWhileD subset_iff tl_Nil empty_iff empty_set)
  show "plain_key k"
    unfolding plain_key_def plain_def using ks nh nn
    by (auto simp: k dest: set_takeWhileD)
  show "plain v"
    unfolding plain_def using vs nh nn by (auto simp: v)
qed

lemma strip_pad_right:
  assumes "list_all is_space b"
  shows "strip (x @ b) = strip x"
proof (cases "list_all is_space x")
  case True
  then show ?thesis using assms strip_spaces [of "x @ b"] strip_spaces [of x] by simp
next
  case False
  then obtain c where c: "c \<in> set x" "\<not> is_space c" by (auto simp: list_all_iff)
  have 1: "dropWhile is_space (x @ b) = dropWhile is_space x @ b"
    using c by (rule dropWhile_append1)
  have 2: "dropWhile is_space (rev b @ rev (dropWhile is_space x)) =
        dropWhile is_space (rev (dropWhile is_space x))"
    using assms by (intro dropWhile_append2) (simp add: list_all_iff)
  show ?thesis unfolding strip_def 1 using 2 by simp
qed

lemma readlines_shape:
  "l \<in> set (readlines t) \<Longrightarrow> \<exists>x. CHR 0x0A \<notin> set x \<and> (l = x \<or> l = x @ [CHR 0x0A])"
proof (induction t arbitrary: l)
  case Nil
  then show ?case by simp
next
  case (Cons c cs)
  show ?case
  proof (cases "c = CHR 0x0A")
    case True
    then have "l = [] @ [CHR 0x0A] \<or> l \<in> set (readlines cs)" using Cons.prems by auto
    then show ?thesis using Cons.IH by (metis empty_iff empty_set)
  next
    case False
    show ?thesis
    proof (cases "readlines cs")
      case Nil
      then have "l = [c]" using Cons.prems False by simp
      then show ?thesis using False by auto
    next
      case (Cons m ms)
      then consider "l = c # m" | "l \<in> set ms" using Cons.prems False by auto
      then show ?thesis
      proof cases
        case 1
        obtain x where x: "CHR 0x0A \<notin> set x" "m = x \<or> m = x @ [CHR 0x0A]"
          using Cons.IH [of m] Cons by auto
        have "CHR 0x0A \<notin> set (c # x)" using x False by auto
        moreover have "l = c # x \<or> l = (c # x) @ [CHR 0x0A]" using 1 x by auto
        ultimately show ?thesis by blast
      next
        case 2
        then show ?thesis using Cons.IH [of l] Cons by simp
      qed
    qed
  qed
qed

lemma strip_line_no_newline:
  assumes "l \<in> set (readlines t)"
  shows "CHR 0x0A \<notin> set (strip l)"
proof -
  obtain x where x: "CHR 0x0A \<notin> set x" "l = x \<or> l = x @ [CHR 0x0A]"
    using readlines_shape [OF assms] by auto
  have "strip l = strip x" using x(2) strip_pad_right [of "[CHR 0x0A]" x] by auto
  then show ?thesis using strip_subset [of x] x(1) by auto
qed

section \<open>Dictionaries and files\<close>

lemma upd_pair [simp]: "upd (k, v) d = AList.update k v d"
  by (simp add: upd_def)

lemma fold_upd_distinct:
  "distinct (map fst acc) \<Longrightarrow> distinct (map fst (fold upd items acc))"
  by (induction items arbitrary: acc) (auto simp: upd_def distinct_update)

lemma set_update_subset: "set (AList.update k v d) \<subseteq> insert (k, v) (set d)"
  by (induction d) auto

lemma fold_upd_subset: "set (fold upd items acc) \<subseteq> set acc \<union> set items"
proof (induction items arbitrary: acc)
  case Nil
  then show ?case by simp
next
  case (Cons x xs)
  have "set (fold upd xs (upd x acc)) \<subseteq> set (upd x acc) \<union> set xs" by (rule Cons.IH)
  moreover have "set (upd x acc) \<subseteq> insert x (set acc)"
    using set_update_subset [of "fst x" "snd x" acc] by (simp add: upd_def)
  ultimately show ?case by auto
qed

lemma fold_upd_map_of:
  "map_of (fold upd items acc) = map_of acc ++ map_of (rev items)"
proof (induction items arbitrary: acc)
  case Nil
  then show ?case by simp
next
  case (Cons x xs)
  have "map_of (fold upd (x # xs) acc) = map_of (upd x acc) ++ map_of (rev xs)"
    by (simp add: Cons.IH)
  also have "map_of (upd x acc) = (map_of acc)(fst x \<mapsto> snd x)"
    by (simp add: upd_def update_conv')
  also have "(map_of acc)(fst x \<mapsto> snd x) ++ map_of (rev xs) = map_of acc ++ map_of (rev (x # xs))"
    by (rule ext) (auto simp: map_add_def split: option.splits)
  finally show ?case .
qed

lemma fold_upd_Nil: "fold upd items acc = [] \<longleftrightarrow> items = [] \<and> acc = []"
  by (induction items arbitrary: acc) (auto simp: upd_def)

lemma entries_Cons:
  "entries (l # ls) =
     (if strip l = [] \<or> startswith (strip l) ''#'' then entries ls
      else (case parse_line (strip l) of None \<Rightarrow> entries ls
            | Some kv \<Rightarrow> (fst kv, PStr (snd kv)) # entries ls))"
  by (simp add: entries_def map_filter_simps split: option.splits)

lemma entries_Nil [simp]: "entries [] = []"
  by (simp add: entries_def map_filter_simps)

lemma get_conf_lines_entries:
  "get_conf_lines p ls acc = Inr d \<Longrightarrow> d = fold upd (entries ls) acc"
proof (induction ls arbitrary: acc)
  case Nil
  then show ?case by simp
next
  case (Cons l ls)
  show ?case
  proof (cases "strip l = [] \<or> startswith (strip l) ''#''")
    case True
    then show ?thesis using Cons by (simp add: entries_Cons)
  next
    case False
    then obtain k v where kv: "parse_line (strip l) = Some (k, v)"
      using Cons.prems by (auto simp: Let_def split: option.splits)
    then have "get_conf_lines p ls (AList.update k (PStr v) acc) = Inr d"
      using Cons.prems False by (simp add: Let_def)
    then have "d = fold upd (entries ls) (AList.update k (PStr v) acc)" by (rule Cons.IH)
    then show ?thesis using False kv by (simp add: entries_Cons)
  qed
qed

lemma entries_plain:
  "\<forall>l \<in> set ls. CHR 0x0A \<notin> set (strip l) \<Longrightarrow> list_all plain_item (entries ls)"
proof (induction ls)
  case Nil
  then show ?case by simp
next
  case (Cons l ls)
  then have IH: "list_all plain_item (entries ls)" by simp
  show ?case
  proof (cases "parse_line (strip l)")
    case None
    then show ?thesis using IH by (simp add: entries_Cons)
  next
    case (Some kv)
    then have "plain_key (fst kv)" "plain (snd kv)"
      using parse_line_plain [of "strip l" "fst kv" "snd kv"] Cons.prems by auto
    then have "plain_item (fst kv, PStr (snd kv))" by (simp add: plain_item_def)
    then show ?thesis using IH Some by (simp add: entries_Cons)
  qed
qed

lemma entries_str: "list_all (\<lambda>kv. is_str (snd kv)) (entries ls)"
  by (simp add: entries_def list_all_iff is_str_def)

subsection \<open>What \<open>_get_conf\<close> returns\<close>

lemma get_conf_result:
  assumes "get_conf w p = Inr d"
  obtains body where "files w p = Some body" "d = fold upd (entries (readlines body)) []"
    "distinct (map fst d)" "list_all plain_item d" "list_all (\<lambda>kv. is_str (snd kv)) d"
proof -
  from assms obtain body where t: "files w p = Some body"
    and g: "get_conf_lines p (readlines body) [] = Inr d"
    by (auto simp: get_conf_def split: option.splits)
  have d: "d = fold upd (entries (readlines body)) []" using g by (rule get_conf_lines_entries)
  have sub: "set d \<subseteq> set (entries (readlines body))" using fold_upd_subset [of "entries (readlines body)" "[]"] d by simp
  have "list_all plain_item (entries (readlines body))"
    by (rule entries_plain) (simp add: strip_line_no_newline)
  then have 1: "list_all plain_item d" using sub by (auto simp: list_all_iff)
  have 2: "list_all (\<lambda>kv. is_str (snd kv)) d" using sub entries_str [of "readlines body"] by (auto simp: list_all_iff)
  have 3: "distinct (map fst d)" unfolding d by (rule fold_upd_distinct) simp
  show ?thesis using that t d 1 2 3 by blast
qed

subsection \<open>Reading what was written\<close>

lemma readlines_conf_text:
  "list_all plain_item items \<Longrightarrow>
   readlines (conf_text items) = map (\<lambda>kv. fst kv @ '' = '' @ py_str (snd kv) @ [CHR 0x0A]) items"
proof (induction items)
  case Nil
  then show ?case by (simp add: conf_text_def)
next
  case (Cons x xs)
  have nn: "CHR 0x0A \<notin> set (fst x @ '' = '' @ py_str (snd x))"
    using Cons.prems by (auto simp: plain_item_def plain_key_def plain_def)
  have "conf_text (x # xs) = (fst x @ '' = '' @ py_str (snd x)) @ CHR 0x0A # conf_text xs"
    by (simp add: conf_text_def)
  then show ?case using readlines_line [OF nn, of "conf_text xs"] Cons by simp
qed

lemma get_conf_lines_written:
  "list_all plain_item items \<Longrightarrow>
   get_conf_lines p (map (\<lambda>kv. fst kv @ '' = '' @ py_str (snd kv) @ [CHR 0x0A]) items) acc =
     Inr (fold upd (stringified items) acc)"
proof (induction items arbitrary: acc)
  case Nil
  then show ?case by (simp add: stringified_def)
next
  case (Cons x xs)
  have x: "plain_key (fst x)" "plain (py_str (snd x))" using Cons.prems by (simp_all add: plain_item_def)
  note w = written_line_parse [OF x]
  show ?case using Cons w by (simp add: stringified_def)
qed

lemma dict_items_set [simp]: "set (dict_items h d) = set d"
  by (simp add: dict_items_def)

lemma dict_items_mset [simp]: "mset (dict_items h d) = mset d"
  by (simp add: dict_items_def)

lemma dict_items_Nil [simp]: "dict_items h d = [] \<longleftrightarrow> d = []"
  by (metis dict_items_mset mset_zero_iff)

lemma dict_items_distinct [simp]: "distinct (map fst (dict_items h d)) = distinct (map fst d)"
proof -
  have "mset (map fst (dict_items h d)) = mset (map fst d)"
    by simp
  then show ?thesis by (rule mset_eq_imp_distinct_iff)
qed

lemma dict_items_all [simp]: "list_all P (dict_items h d) = list_all P d"
  by (simp add: list_all_iff)

lemma stringified_keys [simp]: "map fst (stringified d) = map fst d"
  by (simp add: stringified_def comp_def)

lemma stringified_map_of: "map_of (stringified d) k = map_option (\<lambda>v. PStr (py_str v)) (map_of d k)"
  by (induction d) (auto simp: stringified_def)

lemma stringified_str: "list_all (\<lambda>kv. is_str (snd kv)) d \<Longrightarrow> stringified d = d"
  by (induction d) (auto simp: stringified_def is_str_def split: pyval.splits)

lemma read_written:
  assumes "distinct (map fst d)" "list_all plain_item d"
  obtains d' where "get_conf_lines p (readlines (conf_text (dict_items h d))) [] = Inr d'"
    and "map_of d' = map_of (stringified d)" and "d' = fold upd (stringified (dict_items h d)) []"
proof -
  let ?items = "dict_items h d"
  let ?d' = "fold upd (stringified ?items) []"
  have pl: "list_all plain_item ?items" using assms(2) by simp
  have 1: "get_conf_lines p (readlines (conf_text ?items)) [] = Inr ?d'"
    using readlines_conf_text [OF pl] get_conf_lines_written [OF pl] by simp
  have "map_of ?d' = map_of (rev (stringified ?items))"
    by (simp add: fold_upd_map_of)
  also have "\<dots> = map_of (stringified d)"
  proof (rule map_of_inject_set [THEN iffD2])
    show "distinct (map fst (rev (stringified ?items)))"
      using assms(1) by (simp add: rev_map [symmetric] del: stringified_keys) (simp add: rev_map)
    show "distinct (map fst (stringified d))" using assms(1) by simp
    show "set (rev (stringified ?items)) = set (stringified d)"
      by (simp add: stringified_def)
  qed
  finally show ?thesis using that 1 by blast
qed

subsection \<open>The effect of a write\<close>

lemma files_write_file [simp]:
  "files (write_file p t w) = (files w)(p \<mapsto> t)"
  "dirs (write_file p t w) = dirs w" "running (write_file p t w) = running w"
  "events (write_file p t w) = events w" "out (write_file p t w) = out w"
  by (simp_all add: write_file_def)

lemma files_move_file [simp]:
  "files (move_file a b w) q = (if q = b then files w a else if q = a then None else files w q)"
  "dirs (move_file a b w) = dirs w" "running (move_file a b w) = running w"
  "events (move_file a b w) = events w" "out (move_file a b w) = out w"
  by (simp_all add: move_file_def)

lemma parent_exists_cong: "dirs w' = dirs w \<Longrightarrow> parent_exists w' p = parent_exists w p"
  by (simp add: parent_exists_def)

lemma dirs_renamed [simp]: "dirs (renamed e p w) = dirs w"
  by (simp add: renamed_def)

lemma parent_exists_renamed [simp]: "parent_exists (renamed e p w) q = parent_exists w q"
  by (simp add: parent_exists_def)

text \<open>Every way a write can go.\<close>

lemma write_conf_eval:
  assumes "''self'' \<notin> fst ` set data" and "''conf_path'' \<notin> fst ` set data"
  shows "write_conf e w p table data =
     (if path_exists w p \<and> \<not> parent_exists w (backup_name e p)
      then (Inl (OSError ''[Errno 2] No such file or directory''), w)
      else if data = [] \<and> table = []
      then (Inl (IOError ''Cannot write two different types of config into the same file!''),
            renamed e p w)
      else if \<not> parent_exists w p
      then (Inl (IOError (''[Errno 2] No such file or directory: '' @ squoted p)), renamed e p w)
      else (Inr (backup_of e p w),
            write_file p
              (if data \<noteq> [] \<and> table = [] then conf_text (dict_items (hash e) data)
               else if table \<noteq> [] \<and> data = [] then table_text table
               else [])
              (renamed e p w)))"
  using assms
  by (simp add: write_conf_def rename_def open_write_def renamed_def backup_of_def parent_exists_def)

lemma write_conf_data:
  assumes "kwargs_ok d" "d \<noteq> []" "writable e w p"
  shows "write_conf e w p [] d =
     (Inr (backup_of e p w), write_file p (conf_text (dict_items (hash e) d)) (renamed e p w))"
  using assms by (simp add: write_conf_eval kwargs_ok_def writable_def)

lemma write_conf_table:
  assumes "t \<noteq> []" "writable e w p"
  shows "write_conf e w p t [] =
     (Inr (backup_of e p w), write_file p (table_text t) (renamed e p w))"
  using assms by (simp add: write_conf_eval writable_def)

lemma write_conf_InrD:
  assumes "write_conf e w p table data = (Inr bk, w')"
  shows "writable e w p" and "data \<noteq> [] \<or> table \<noteq> []"
    and "''self'' \<notin> fst ` set data" and "''conf_path'' \<notin> fst ` set data"
proof -
  have k: "''self'' \<notin> fst ` set data \<and> ''conf_path'' \<notin> fst ` set data"
    using assms by (auto simp: write_conf_def split: if_splits)
  then show "''self'' \<notin> fst ` set data" and "''conf_path'' \<notin> fst ` set data" by simp_all
  from k have ev: "write_conf e w p table data =
     (if path_exists w p \<and> \<not> parent_exists w (backup_name e p)
      then (Inl (OSError ''[Errno 2] No such file or directory''), w)
      else if data = [] \<and> table = []
      then (Inl (IOError ''Cannot write two different types of config into the same file!''),
            renamed e p w)
      else if \<not> parent_exists w p
      then (Inl (IOError (''[Errno 2] No such file or directory: '' @ squoted p)), renamed e p w)
      else (Inr (backup_of e p w),
            write_file p
              (if data \<noteq> [] \<and> table = [] then conf_text (dict_items (hash e) data)
               else if table \<noteq> [] \<and> data = [] then table_text table
               else [])
              (renamed e p w)))"
    by (simp add: write_conf_eval)
  show "writable e w p" using assms unfolding ev writable_def by (auto split: if_splits)
  show "data \<noteq> [] \<or> table \<noteq> []" using assms unfolding ev by (auto split: if_splits)
qed

lemma get_conf_write_file [simp]:
  "get_conf (write_file p t w) p = get_conf_lines p (readlines t) []"
  by (simp add: get_conf_def)

subsection \<open>The backup name\<close>

lemma digit_in: "digit m \<in> set ''0123456789''"
  unfolding digit_def by (rule nth_mem) simp

lemma str_nat_digits: "set (str_nat n) \<subseteq> set ''0123456789''"
proof (induction n rule: str_nat.induct)
  case (1 n)
  show ?case
  proof (cases "n < 10")
    case True
    have "str_nat n = [digit n]" using True by (subst str_nat.simps) simp
    then show ?thesis using digit_in [of n] by simp
  next
    case False
    have "str_nat n = str_nat (n div 10) @ [digit (n mod 10)]"
      using False by (subst str_nat.simps) simp
    then show ?thesis using 1 [OF False] digit_in [of "n mod 10"] by simp
  qed
qed

lemma zfill2_chars: "set (zfill2 (str_nat n)) \<subseteq> set ''-0123456789''"
proof -
  have "set (zfill2 (str_nat n)) \<subseteq> insert CHR ''0'' (set (str_nat n))"
    by (auto simp: zfill2_def)
  also have "\<dots> \<subseteq> set ''-0123456789''"
    using str_nat_digits [of n] by (intro insert_subsetI) (simp, rule subset_trans, assumption, simp)
  finally show ?thesis .
qed

lemma join_chars:
  "(\<forall>x \<in> set xs. set x \<subseteq> A) \<Longrightarrow> set sep \<subseteq> A \<Longrightarrow> set (join sep xs) \<subseteq> A"
  by (induction sep xs rule: join.induct) auto

lemma time_prefix_chars: "set (time_prefix e) \<subseteq> set ''-0123456789''"
  unfolding time_prefix_def
proof (rule join_chars)
  show "\<forall>x \<in> set (take 6 (map (\<lambda>el. zfill2 (str_nat el)) (localtime e))). set x \<subseteq> set ''-0123456789''"
  proof
    fix x assume "x \<in> set (take 6 (map (\<lambda>el. zfill2 (str_nat el)) (localtime e)))"
    then have "x \<in> set (map (\<lambda>el. zfill2 (str_nat el)) (localtime e))" by (rule in_set_takeD)
    then obtain el where "x = zfill2 (str_nat el)" by auto
    then show "set x \<subseteq> set ''-0123456789''" using zfill2_chars [of el] by simp
  qed
  show "set ''-'' \<subseteq> set ''-0123456789''" by simp
qed

lemma time_prefix_no_slash [simp]:
  "CHR ''/'' \<notin> set (time_prefix e)" "CHR ''.'' \<notin> set (time_prefix e)"
  using time_prefix_chars [of e] by auto

lemma dirname_suffix:
  assumes "CHR ''/'' \<notin> set b" and "CHR ''/'' \<notin> set c"
  shows "dirname (a @ b) = dirname (a @ c)"
proof -
  have "dropWhile (\<lambda>x. x \<noteq> CHR ''/'') (rev (a @ y)) = dropWhile (\<lambda>x. x \<noteq> CHR ''/'') (rev a)"
    if "CHR ''/'' \<notin> set y" for y
  proof -
    have "dropWhile (\<lambda>x. x \<noteq> CHR ''/'') (rev y @ rev a) = dropWhile (\<lambda>x. x \<noteq> CHR ''/'') (rev a)"
      by (rule dropWhile_append2) (use that in auto)
    then show ?thesis by simp
  qed
  then show ?thesis using assms by (simp add: dirname_def)
qed

lemma split_on_nonempty [simp]: "split_on c s \<noteq> []"
  by (induction s) (auto split: list.splits)

lemma split_on_append: "split_on c (a @ c # b) = split_on c a @ split_on c b"
  by (induction a) (auto split: list.splits)

lemma split_on_none: "c \<notin> set b \<Longrightarrow> split_on c b = [b]"
  by (induction b) auto

lemma join_split_on: "join [c] (split_on c s) = s"
proof (induction s)
  case Nil
  then show ?case by simp
next
  case (Cons x xs)
  then show ?case
    by (cases "split_on c xs"; cases "tl (split_on c xs)") (auto split: list.splits)
qed

lemma backup_name_ext:
  assumes "CHR ''.'' \<notin> set ext"
  shows "backup_name e (stem @ ''.'' @ ext) = stem @ ''.'' @ time_prefix e @ ''.'' @ ext"
proof -
  have "split_on CHR ''.'' (stem @ CHR ''.'' # ext) = split_on CHR ''.'' stem @ [ext]"
    using assms by (simp add: split_on_append split_on_none)
  then show ?thesis
    by (simp add: backup_name_def Let_def join_split_on)
qed




text \<open>The backup of a path whose last component has an extension lies in the
  directory of the path.\<close>

lemma backup_name_sibling:
  assumes "CHR ''.'' \<notin> set ext" and "CHR ''/'' \<notin> set ext"
  shows "dirname (backup_name e (stem @ ''.'' @ ext)) = dirname (stem @ ''.'' @ ext)"
proof -
  have "dirname (stem @ (''.'' @ time_prefix e @ ''.'' @ ext)) = dirname (stem @ (''.'' @ ext))"
    by (rule dirname_suffix) (simp_all add: assms(2))
  then show ?thesis unfolding backup_name_ext [OF assms(1)] by simp
qed

lemma writable_ext:
  assumes "CHR ''.'' \<notin> set ext" and "CHR ''/'' \<notin> set ext"
    and "parent_exists w (stem @ ''.'' @ ext)"
  shows "writable e w (stem @ ''.'' @ ext)"
  using assms(3) backup_name_sibling [OF assms(1,2), of e stem]
  by (simp add: writable_def parent_exists_def)

section \<open>Facts about the example hosts\<close>

lemma example_env_fields [simp]:
  "localtime example_env = [2012, 7, 4, 9, 5, 3, 2, 186, 1]"
  "hash example_env = (\<lambda>k. 0)" "start_ok example_env" "stop_ok example_env"
  by (simp_all add: example_env_def)

lemma example_time_prefix [simp]: "time_prefix example_env = ''2012-07-04-09-05-03''"
  by (simp add: time_prefix_def zfill2_def str_nat.simps digit_def)

lemma example_world_fields [simp]:
  "files example_world ''/var/lib/pgsql/data/postgresql.conf'' = Some minimal_conf"
  "files example_world ''/var/lib/pgsql/data/pg_hba.conf'' = Some peer_hba"
  "running example_world" "events example_world = []" "out example_world = []"
  by (simp_all add: example_world_def)

lemma example_conf_exists [simp]:
  "path_exists example_world ''/var/lib/pgsql/data/postgresql.conf''"
  "path_exists example_world ''/var/lib/pgsql/data/pg_hba.conf''"
  by (simp_all add: path_exists_def)

lemma example_backup_name [simp]:
  "backup_name example_env ''/var/lib/pgsql/data/postgresql.conf'' =
     ''/var/lib/pgsql/data/postgresql.2012-07-04-09-05-03.conf''"
  using backup_name_ext [of "''conf''" example_env "''/var/lib/pgsql/data/postgresql''"]
  by simp

lemma example_writable [simp]:
  "writable example_env example_world ''/var/lib/pgsql/data/postgresql.conf''"
  "writable example_env example_world ''/var/lib/pgsql/data/pg_hba.conf''"
  "writable example_env example_world ''/var/lib/pgsql/data/recovery.conf''"
  "writable example_env example_world ''/etc/pg.conf''"
  using writable_ext [of "''conf''" example_world "''/var/lib/pgsql/data/postgresql''" example_env]
    writable_ext [of "''conf''" example_world "''/var/lib/pgsql/data/pg_hba''" example_env]
    writable_ext [of "''conf''" example_world "''/var/lib/pgsql/data/recovery''" example_env]
    writable_ext [of "''conf''" example_world "''/etc/pg''" example_env]
  by (simp_all add: parent_exists_def dirname_def example_world_def)

section \<open>Writing configuration files\<close>

text \<open>
  C2. On a path that can be written, \<open>_write_conf\<close> called with neither a
  document nor records is not a no-op: it first renames an existing file to its
  backup name, so that nothing is left at the path, and then raises the
  \<open>IOError\<close> whose message speaks of two types of configuration. Called with
  both, it raises nothing: it leaves an empty file at the path and returns the
  backup path.
\<close>

theorem write_conf_neither_or_both:
  assumes "writable e w p"
  shows "write_conf e w p [] [] =
     (Inl (IOError ''Cannot write two different types of config into the same file!''),
      renamed e p w)
   \<and> (table \<noteq> [] \<and> data \<noteq> [] \<and> kwargs_ok data \<longrightarrow>
        write_conf e w p table data = (Inr (backup_of e p w), write_file p [] (renamed e p w)))"
  using assms by (auto simp: write_conf_eval writable_def kwargs_ok_def)

theorem write_conf_neither_or_both_witness:
  "fst (write_conf example_env example_world ''/var/lib/pgsql/data/postgresql.conf'' [] []) =
     Inl (IOError ''Cannot write two different types of config into the same file!'')
   \<and> files (snd (write_conf example_env example_world ''/var/lib/pgsql/data/postgresql.conf'' [] []))
        ''/var/lib/pgsql/data/postgresql.conf'' = None
   \<and> files (snd (write_conf example_env example_world ''/var/lib/pgsql/data/postgresql.conf'' [] []))
        ''/var/lib/pgsql/data/postgresql.2012-07-04-09-05-03.conf'' = Some minimal_conf
   \<and> fst (write_conf example_env example_world ''/var/lib/pgsql/data/postgresql.conf''
          [replication_cfg] [(''port'', PInt 5432)]) =
       Inr (Some ''/var/lib/pgsql/data/postgresql.2012-07-04-09-05-03.conf'')
   \<and> files (snd (write_conf example_env example_world ''/var/lib/pgsql/data/postgresql.conf''
          [replication_cfg] [(''port'', PInt 5432)])) ''/var/lib/pgsql/data/postgresql.conf'' = Some []"
  using write_conf_neither_or_both [of example_env example_world
      "''/var/lib/pgsql/data/postgresql.conf''" "[replication_cfg]" "[(''port'', PInt 5432)]"]
  by (simp add: renamed_def backup_of_def kwargs_ok_def)

section \<open>Reading a written file\<close>

lemma conf_text_no_hash:
  "list_all plain_item items \<Longrightarrow> CHR ''#'' \<notin> set (conf_text items)"
  by (induction items) (auto simp: conf_text_def plain_item_def plain_key_def plain_def)

lemma dict_items_sorted: "sorted (map (\<lambda>kv. h (fst kv)) (dict_items h d))"
  by (simp add: dict_items_def)

lemma plain_eval: "plain s = (rev (dropWhile is_space (rev (dropWhile is_space s))) = s \<and> CHR ''#'' \<notin> set s \<and> CHR 0x0A \<notin> set s)"
  by (simp add: plain_def strip_def)

lemma write_then_read:
  assumes "kwargs_ok d" and "d \<noteq> []" and "list_all plain_item d" and "writable e w p"
  shows "\<exists>d'. get_conf (snd (write_conf e w p [] d)) p = Inr d'
            \<and> map_of d' = map_of (stringified d) \<and> distinct (map fst d')"
proof -
  have dist: "distinct (map fst d)" using assms(1) by (simp add: kwargs_ok_def)
  obtain d' where d': "get_conf_lines p (readlines (conf_text (dict_items (hash e) d))) [] = Inr d'"
    "map_of d' = map_of (stringified d)" "d' = fold upd (stringified (dict_items (hash e) d)) []"
    using read_written [OF dist assms(3)] by blast
  have "distinct (map fst d')" unfolding d'(3) by (rule fold_upd_distinct) simp
  moreover have "get_conf (snd (write_conf e w p [] d)) p = Inr d'"
    using d'(1) by (simp add: write_conf_data [OF assms(1,2,4)])
  ultimately show ?thesis using d'(2) by blast
qed

text \<open>
  C7. Writing a document and reading the file back gives the same mapping when
  the document can be written and read at all: it is not empty, no key is
  \<open>self\<close> or \<open>conf_path\<close>, and its keys and values are plain (no whitespace at
  either end, no \<open>#\<close>, no line break; no \<open>=\<close> in a key). A value may hold
  an equals sign. The path is one that can be written: the write itself returns,
  with the backup path of a file that was there.
\<close>

theorem document_roundtrip:
  assumes "kwargs_ok d" and "d \<noteq> []" and "list_all plain_item d"
    and "list_all (\<lambda>kv. is_str (snd kv)) d"
    and "writable e w p"
  shows "fst (write_conf e w p [] d) = Inr (backup_of e p w)
       \<and> (\<exists>d'. get_conf (snd (write_conf e w p [] d)) p = Inr d'
            \<and> map_of d' = map_of d \<and> distinct (map fst d'))"
  using write_then_read [OF assms(1,2,3,5)] stringified_str [OF assms(4)]
    write_conf_data [OF assms(1,2,5)]
  by simp

theorem document_roundtrip_witness:
  "\<exists>d'. get_conf (snd (write_conf example_env example_world ''/etc/pg.conf'' []
             [(''port'', PStr ''5432''), (''restore_command'', PStr ''cp a=b c'')])) ''/etc/pg.conf'' = Inr d'
        \<and> map_of d' = map_of [(''port'', PStr ''5432''), (''restore_command'', PStr ''cp a=b c'')]
        \<and> distinct (map fst d')"
proof -
  have "fst (write_conf example_env example_world ''/etc/pg.conf'' []
             [(''port'', PStr ''5432''), (''restore_command'', PStr ''cp a=b c'')]) =
          Inr (backup_of example_env ''/etc/pg.conf'' example_world)
       \<and> (\<exists>d'. get_conf (snd (write_conf example_env example_world ''/etc/pg.conf'' []
             [(''port'', PStr ''5432''), (''restore_command'', PStr ''cp a=b c'')])) ''/etc/pg.conf'' = Inr d'
        \<and> map_of d' = map_of [(''port'', PStr ''5432''), (''restore_command'', PStr ''cp a=b c'')]
        \<and> distinct (map fst d'))"
    by (rule document_roundtrip)
       (simp_all add: kwargs_ok_def plain_item_def plain_key_def plain_eval is_space_def is_str_def)
  then show ?thesis by simp
qed

text \<open>The claim as written fails for a value with a comment sign: it has no
  equals sign, and it is read back cut at the sign.\<close>

theorem document_roundtrip_counterexample:
  "CHR ''='' \<notin> set ''/backup#1''
   \<and> get_conf (snd (write_conf example_env example_world ''/etc/pg.conf'' []
         [(''archive_dir'', PStr ''/backup#1'')])) ''/etc/pg.conf'' = Inr [(''archive_dir'', PStr ''/backup'')]
   \<and> PStr ''/backup'' \<noteq> PStr ''/backup#1''"
  by (simp add: write_conf_data kwargs_ok_def conf_text_def dict_items_def
        strip_def is_space_def startswith_def parse_line_def split1_def)

section \<open>The system check on the example host\<close>

lemmas rule_defs = rule_wal_level_def rule_max_wal_senders_def
   rule_wal_keep_segments_def rule_archive_mode_def rule_archive_command_def
   rule_standard_conforming_strings_def rule_bytea_output_def

lemmas line_eval = strip_def is_space_def startswith_def parse_line_def split1_def lines_text_def

lemma get_conf_file: "files w p = Some body \<Longrightarrow> get_conf w p = get_conf_lines p (readlines body) []"
  by (simp add: get_conf_def)

lemma minimal_conf_read:
  "get_conf example_world ''/var/lib/pgsql/data/postgresql.conf'' = Inr
     [(''wal_level'', PStr ''minimal''), (''max_wal_senders'', PStr ''5''),
      (''wal_keep_segments'', PStr ''64''), (''archive_mode'', PStr ''on''),
      (''archive_command'', PStr (squoted ''/bin/true'')),
      (''standard_conforming_strings'', PStr (squoted ''off'')),
      (''bytea_output'', PStr (squoted ''escape''))]"
  by (simp add: get_conf_file minimal_conf_def line_eval squoted_def)

lemma peer_hba_read:
  "parse_hba (readlines peer_hba) =
     [[''local'', ''all'', ''all'', ''peer''], [''local'', ''replication'', ''postgres'', ''peer'']]"
  by (simp add: peer_hba_def line_eval hba_fields_def)

lemma example_plan:
  "system_check_plan example_gate example_env False example_world =
     Inr (([(''wal_level'', PStr ''archive''), (''max_wal_senders'', PStr ''5''),
            (''wal_keep_segments'', PStr ''64''), (''archive_mode'', PStr ''on''),
            (''archive_command'', PStr (squoted ''/bin/true'')),
            (''standard_conforming_strings'', PStr (squoted ''off'')),
            (''bytea_output'', PStr (squoted ''escape''))], False),
          ([[''local'', ''all'', ''all'', ''peer''], [''local'', ''replication'', ''postgres'', ''peer'']],
           False))"
  by (simp add: system_check_plan_def example_gate_def minimal_conf_read peer_hba_read
        check_conf_def rule_defs check_hba_def replication_cfg_def squoted_def)

text \<open>
  C3. The rule on the WAL level stores \<open>archive\<close> in the dictionary and does not
  raise \<open>changed\<close>. On a host whose configuration meets every other rule and
  whose level is \<open>minimal\<close>, the system check reports that no changes are
  required, writes no file and issues no command.
\<close>

theorem wal_level_not_flagged:
  "snd (rule_wal_level (conf, changed)) = changed
   \<and> do_system_check example_gate example_env False example_world =
       (None, example_world\<lparr>out := [''INFO: No changes required.'', ''System check finished'']\<rparr>)"
  by (simp add: rule_wal_level_def do_system_check_def example_plan commit_changes_def seq_def say_def)

theorem wal_level_not_flagged_witness:
  "fst (do_system_check example_gate example_env False example_world) = None
   \<and> files (snd (do_system_check example_gate example_env False example_world))
        ''/var/lib/pgsql/data/postgresql.conf'' = Some minimal_conf
   \<and> events (snd (do_system_check example_gate example_env False example_world)) = []
   \<and> map_of (fst (rule_wal_level
        ([(''wal_level'', PStr ''minimal'')], False))) ''wal_level'' = Some (PStr ''archive'')
   \<and> \<not> snd (rule_wal_level ([(''wal_level'', PStr ''minimal'')], False))"
  using wal_level_not_flagged [of "[(''wal_level'', PStr ''minimal'')]" False]
  by (simp add: rule_wal_level_def)

text \<open>
  C4. The number of WAL senders is compared as a string with \<open>'5'\<close>. Ten
  senders, \<open>'10'\<close>, come before \<open>'5'\<close> in that order: the check stores 5 and
  raises \<open>changed\<close>.
\<close>

theorem ten_wal_senders_lowered:
  "py_lt (PStr ''10'') (PStr ''5'')
   \<and> check_conf (ten_senders_conf, False) =
       (AList.update ''max_wal_senders'' (PInt 5) ten_senders_conf, True)"
  by (simp add: ten_senders_conf_def check_conf_def rule_defs squoted_def)

theorem ten_wal_senders_lowered_witness:
  "map_of ten_senders_conf ''max_wal_senders'' = Some (PStr ''10'')
   \<and> map_of (fst (check_conf (ten_senders_conf, False))) ''max_wal_senders'' = Some (PInt 5)
   \<and> snd (check_conf (ten_senders_conf, False))"
  using ten_wal_senders_lowered by (simp add: ten_senders_conf_def)

text \<open>
  C8. The rule table the system check plans is the table read from
  \<open>pg_hba.conf\<close>, unchanged and without the flag when it holds the replication
  rule, and with the rule appended as its last row, the flag raised, when it does
  not; the appended rule then occurs exactly once.
\<close>

theorem replication_rule_appended:
  assumes "files w (pcnf_pg_data g @ ''/pg_hba.conf'') = Some body"
    and "system_check_plan g e autotuning w = Inr (cc, hh)"
  shows "hh = (if replication_cfg \<in> set (parse_hba (readlines body))
               then (parse_hba (readlines body), False)
               else (parse_hba (readlines body) @ [replication_cfg], True))
       \<and> (if replication_cfg \<in> set (parse_hba (readlines body)) then fst hh = parse_hba (readlines body)
           else count_list (fst hh) replication_cfg = 1 \<and> last (fst hh) = replication_cfg
              \<and> butlast (fst hh) = parse_hba (readlines body))"
  using assms
  by (auto simp: system_check_plan_def check_hba_def count_list_0_iff
        split: sum.splits if_splits option.splits)

theorem replication_rule_appended_witness:
  "snd (check_hba (parse_hba (readlines bare_hba))) \<and>
   fst (check_hba (parse_hba (readlines bare_hba))) =
     [[''local'', ''all'', ''all'', ''peer''], [''local'', ''replication'', ''postgres'', ''peer'']]
   \<and> \<not> snd (check_hba (parse_hba (readlines peer_hba)))
   \<and> fst (check_hba (parse_hba (readlines peer_hba))) =
     [[''local'', ''all'', ''all'', ''peer''], [''local'', ''replication'', ''postgres'', ''peer'']]"
proof -
  let ?w = "example_world\<lparr>files := (files example_world)(''/var/lib/pgsql/data/pg_hba.conf'' \<mapsto> bare_hba)\<rparr>"
  have bare: "parse_hba (readlines bare_hba) = [[''local'', ''all'', ''all'', ''peer'']]"
    by (simp add: bare_hba_def line_eval hba_fields_def)
  have c: "get_conf ?w ''/var/lib/pgsql/data/postgresql.conf'' =
       get_conf example_world ''/var/lib/pgsql/data/postgresql.conf''"
    by (simp add: get_conf_def)
  have p1: "system_check_plan example_gate example_env False ?w =
      Inr (check_conf (the_conf, False), check_hba (parse_hba (readlines bare_hba)))"
    if "get_conf example_world ''/var/lib/pgsql/data/postgresql.conf'' = Inr the_conf" for the_conf
    using that by (simp add: system_check_plan_def example_gate_def c)
  have f1: "files ?w (pcnf_pg_data example_gate @ ''/pg_hba.conf'') = Some bare_hba"
    by (simp add: example_gate_def)
  have f2: "files example_world (pcnf_pg_data example_gate @ ''/pg_hba.conf'') = Some peer_hba"
    by (simp add: example_gate_def)
  have p2: "system_check_plan example_gate example_env False example_world =
      Inr (check_conf (the_conf, False), check_hba (parse_hba (readlines peer_hba)))"
    if "get_conf example_world ''/var/lib/pgsql/data/postgresql.conf'' = Inr the_conf" for the_conf
    using that by (simp add: system_check_plan_def example_gate_def)
  note t1 = replication_rule_appended [OF f1 p1 [OF minimal_conf_read]]
  note t2 = replication_rule_appended [OF f2 p2 [OF minimal_conf_read]]
  show ?thesis using t1 t2 by (simp add: bare peer_hba_read replication_cfg_def)
qed

section \<open>The space test of the restore\<close>

lemma archiving_conf_read:
  "get_conf archiving_world ''/var/lib/pgsql/data/postgresql.conf'' = Inr
     [(''wal_level'', PStr ''archive''), (''archive_mode'', PStr ''on''),
      (''archive_command'', PStr (enabled_command ''/backup''))]"
  by (simp add: get_conf_def archiving_world_def archiving_conf_def line_eval squoted_def
        enabled_command_def)

lemma archiving_backup_dir:
  "dirs archiving_world ''/backup''" "path_exists archiving_world ''/backup''"
  by (simp_all add: path_exists_def archiving_world_def example_world_def)

lemma archiving_status:
  "do_backup_status example_gate archiving_world = Inr (''/backup'', True)"
  by (simp add: do_backup_status_def example_gate_def archiving_conf_read archive_command_def
        enabled_command_def squoted_def startswith_def dirname_def archiving_backup_dir)

lemma restore_aborts_unchanged:
  assumes "do_backup_status g w = Inr (backup_dst, True)"
    and "df_avail e (pcnf_pg_data g) - du e (pcnf_pg_data g) - du e backup_dst < 0x40000000"
  shows "do_backup_restore g e w =
     (Some (SysExit 1), say ''At least 1GB free disk space required after backup restoration.'' w)"
  using assms by (simp add: do_backup_restore_def Let_def)

text \<open>
  C1. The test that lets the restore go ahead is \<open>available - current_size -
  backup_size \<ge> 1 GiB\<close>: the ratio 0.134 is not in it. With 100 GiB available,
  a cluster of 100 GiB and a backup of 40 GiB, the specification's condition
  holds (46.6 GiB would be left) and the restore still stops with exit status 1.
  It stops before anything is touched: the world is the one it started in, with
  the diagnostic printed.
\<close>

theorem restore_space_check_without_ratio:
  "spec_space_ok (100 * GiB) (100 * GiB) (40 * GiB)
   \<and> do_backup_status example_gate archiving_world = Inr (''/backup'', True)
   \<and> do_backup_restore example_gate example_env archiving_world =
       (Some (SysExit 1),
        say ''At least 1GB free disk space required after backup restoration.'' archiving_world)"
proof -
  have "df_avail example_env (pcnf_pg_data example_gate) - du example_env (pcnf_pg_data example_gate)
          - du example_env ''/backup'' < 0x40000000"
    by (simp add: example_env_def example_gate_def GiB_def)
  from restore_aborts_unchanged [OF archiving_status this] show ?thesis
    by (simp add: archiving_status spec_space_ok_def GiB_def)
qed

theorem restore_space_check_without_ratio_witness:
  "fst (do_backup_restore example_gate example_env archiving_world) = Some (SysExit 1)
   \<and> events (snd (do_backup_restore example_gate example_env archiving_world)) = []
   \<and> running (snd (do_backup_restore example_gate example_env archiving_world))
   \<and> files (snd (do_backup_restore example_gate example_env archiving_world)) =
       files archiving_world"
  using restore_space_check_without_ratio
  by (simp add: say_def archiving_world_def)

section \<open>The rules of the system check as functions of the mapping\<close>

lemma rule_wal_level_map:
  "map_of (fst (rule_wal_level cc)) k =
     (if k = ''wal_level'' \<and> (\<not> truthy (map_of (fst cc) ''wal_level'')
          \<or> map_of (fst cc) ''wal_level'' = Some (PStr ''minimal''))
      then Some (PStr ''archive'') else map_of (fst cc) k)"
  and rule_wal_level_flag: "snd (rule_wal_level cc) = snd cc"
  by (auto simp: rule_wal_level_def update_conv')

lemma rule_max_wal_senders_map:
  "map_of (fst (rule_max_wal_senders cc)) k =
     (if k = ''max_wal_senders'' \<and> (\<not> truthy (map_of (fst cc) ''max_wal_senders'')
          \<or> (case map_of (fst cc) ''max_wal_senders'' of None \<Rightarrow> False
              | Some v \<Rightarrow> py_lt v (PStr ''5'')))
      then Some (PInt 5) else map_of (fst cc) k)"
  and rule_max_wal_senders_flag:
  "snd (rule_max_wal_senders cc) =
     (snd cc \<or> (\<not> truthy (map_of (fst cc) ''max_wal_senders'')
          \<or> (case map_of (fst cc) ''max_wal_senders'' of None \<Rightarrow> False
              | Some v \<Rightarrow> py_lt v (PStr ''5''))))"
  by (auto simp: rule_max_wal_senders_def update_conv')

lemma rule_wal_keep_segments_map:
  "map_of (fst (rule_wal_keep_segments cc)) k =
     (if k = ''wal_keep_segments'' \<and> map_of (fst cc) ''wal_keep_segments'' \<in> {None, Some (PStr ''0'')}
      then Some (PInt 64) else map_of (fst cc) k)"
  and rule_wal_keep_segments_flag:
  "snd (rule_wal_keep_segments cc) =
     (snd cc \<or> map_of (fst cc) ''wal_keep_segments'' \<in> {None, Some (PStr ''0'')})"
  by (auto simp: rule_wal_keep_segments_def update_conv')

lemma rule_archive_mode_map:
  "map_of (fst (rule_archive_mode cc)) k =
     (if k = ''archive_mode'' then Some (PStr ''on'') else map_of (fst cc) k)"
  and rule_archive_mode_flag:
  "snd (rule_archive_mode cc) = (snd cc \<or> map_of (fst cc) ''archive_mode'' \<noteq> Some (PStr ''on''))"
  by (auto simp: rule_archive_mode_def update_conv')

lemma rule_archive_command_map:
  "map_of (fst (rule_archive_command cc)) k =
     (if k = ''archive_command'' then Some (PStr (squoted ''/bin/true'')) else map_of (fst cc) k)"
  and rule_archive_command_flag:
  "snd (rule_archive_command cc) =
     (snd cc \<or> map_of (fst cc) ''archive_command'' \<noteq> Some (PStr (squoted ''/bin/true'')))"
  by (auto simp: rule_archive_command_def update_conv')

lemma rule_standard_conforming_strings_map:
  "map_of (fst (rule_standard_conforming_strings cc)) k =
     (if k = ''standard_conforming_strings'' then Some (PStr (squoted ''off'')) else map_of (fst cc) k)"
  and rule_standard_conforming_strings_flag:
  "snd (rule_standard_conforming_strings cc) =
     (snd cc \<or> map_of (fst cc) ''standard_conforming_strings'' \<noteq> Some (PStr (squoted ''off'')))"
  by (auto simp: rule_standard_conforming_strings_def update_conv')

lemma rule_bytea_output_map:
  "map_of (fst (rule_bytea_output cc)) k =
     (if k = ''bytea_output'' then Some (PStr (squoted ''escape'')) else map_of (fst cc) k)"
  and rule_bytea_output_flag:
  "snd (rule_bytea_output cc) =
     (snd cc \<or> map_of (fst cc) ''bytea_output'' \<noteq> Some (PStr (squoted ''escape'')))"
  by (auto simp: rule_bytea_output_def update_conv')

lemmas rule_maps = rule_wal_level_map rule_max_wal_senders_map rule_wal_keep_segments_map
  rule_archive_mode_map rule_archive_command_map rule_standard_conforming_strings_map
  rule_bytea_output_map

lemmas rule_flags = rule_wal_level_flag rule_max_wal_senders_flag rule_wal_keep_segments_flag
  rule_archive_mode_flag rule_archive_command_flag rule_standard_conforming_strings_flag
  rule_bytea_output_flag

lemma check_conf_flag: "snd (check_conf cc) = (snd cc \<or> violated (map_of (fst cc)))"
  unfolding check_conf_def violated_def
  by (simp only: rule_flags rule_maps) auto

lemma check_conf_other:
  "k \<notin> set policy_keys \<Longrightarrow> map_of (fst (check_conf cc)) k = map_of (fst cc) k"
  unfolding check_conf_def policy_keys_def
  by (simp add: rule_maps)

lemma check_conf_values:
  "map_of (fst (check_conf cc)) ''max_wal_senders'' =
     (if \<not> truthy (map_of (fst cc) ''max_wal_senders'')
          \<or> (case map_of (fst cc) ''max_wal_senders'' of None \<Rightarrow> False
              | Some v \<Rightarrow> py_lt v (PStr ''5''))
      then Some (PInt 5) else map_of (fst cc) ''max_wal_senders'')"
  "map_of (fst (check_conf cc)) ''wal_keep_segments'' =
     (if map_of (fst cc) ''wal_keep_segments'' \<in> {None, Some (PStr ''0'')}
      then Some (PInt 64) else map_of (fst cc) ''wal_keep_segments'')"
  "map_of (fst (check_conf cc)) ''archive_mode'' = Some (PStr ''on'')"
  "map_of (fst (check_conf cc)) ''archive_command'' = Some (PStr (squoted ''/bin/true''))"
  "map_of (fst (check_conf cc)) ''standard_conforming_strings'' = Some (PStr (squoted ''off''))"
  "map_of (fst (check_conf cc)) ''bytea_output'' = Some (PStr (squoted ''escape''))"
  unfolding check_conf_def by (simp_all add: rule_maps)

lemma str_int_5 [simp]: "str_int 5 = ''5''" and str_int_64 [simp]: "str_int 64 = ''64''"
  by (simp_all add: str_int_def str_nat.simps digit_def)

lemma senders_settled:
  assumes "\<And>v. x = Some v \<Longrightarrow> is_str v"
  shows "truthy (map_option (\<lambda>v. PStr (py_str v))
            (if \<not> truthy x \<or> (case x of None \<Rightarrow> False | Some v \<Rightarrow> py_lt v (PStr ''5''))
             then Some (PInt 5) else x))
       \<and> \<not> (case map_option (\<lambda>v. PStr (py_str v))
            (if \<not> truthy x \<or> (case x of None \<Rightarrow> False | Some v \<Rightarrow> py_lt v (PStr ''5''))
             then Some (PInt 5) else x) of None \<Rightarrow> False | Some v \<Rightarrow> py_lt v (PStr ''5''))"
proof (cases x)
  case None
  then show ?thesis by simp
next
  case (Some v)
  then obtain s where "v = PStr s" using assms by (cases v) (auto simp: is_str_def)
  then show ?thesis using Some by simp
qed

lemma segments_settled:
  assumes "\<And>v. x = Some v \<Longrightarrow> is_str v"
  shows "map_option (\<lambda>v. PStr (py_str v))
            (if x \<in> {None, Some (PStr ''0'')} then Some (PInt 64) else x)
          \<notin> {None, Some (PStr ''0'')}"
proof (cases x)
  case None
  then show ?thesis by simp
next
  case (Some v)
  then obtain s where "v = PStr s" using assms by (cases v) (auto simp: is_str_def)
  then show ?thesis using Some by simp
qed

lemma check_conf_settled:
  assumes "\<forall>k \<in> set policy_keys. \<forall>v. map_of (fst cc) k = Some v \<longrightarrow> is_str v"
  shows "\<not> violated (as_read (map_of (fst (check_conf cc))))"
proof -
  have a: "\<And>v. map_of (fst cc) ''max_wal_senders'' = Some v \<Longrightarrow> is_str v"
    and b: "\<And>v. map_of (fst cc) ''wal_keep_segments'' = Some v \<Longrightarrow> is_str v"
    using assms by (simp_all add: policy_keys_def)
  show ?thesis
    unfolding violated_def as_read_def check_conf_values
    using senders_settled [OF a] segments_settled [OF b] by simp
qed

lemma violated_cong:
  "(\<And>k. k \<in> set policy_keys \<Longrightarrow> m k = m' k) \<Longrightarrow> violated m = violated m'"
  by (simp add: violated_def policy_keys_def)

lemma tune_item_fst: "fst (tune_item kv cc) = upd kv (fst cc)"
  by (simp add: tune_item_def upd_def)

lemma autotune_fst: "fst (autotune T cc) = fold upd T (fst cc)"
  unfolding autotune_def
  by (induction T arbitrary: cc) (simp_all add: tune_item_fst)

lemma autotune_flag:
  "distinct (map fst T) \<Longrightarrow>
   snd (autotune T (c, ch)) =
     (ch \<or> (\<exists>kv \<in> set T. py_str_opt (map_of c (fst kv)) \<noteq> py_str (snd kv)))"
proof (induction T arbitrary: c ch)
  case Nil
  then show ?case by (simp add: autotune_def)
next
  case (Cons x T)
  have other: "map_of (AList.update (fst x) (snd x) c) (fst kv) = map_of c (fst kv)"
    if "kv \<in> set T" for kv
  proof -
    have "fst kv \<noteq> fst x" using that Cons.prems by (auto simp: image_iff)
    then show ?thesis by (simp add: update_conv')
  qed
  have "snd (autotune (x # T) (c, ch)) =
      snd (autotune T (AList.update (fst x) (snd x) c,
             ch \<or> py_str_opt (map_of c (fst x)) \<noteq> py_str (snd x)))"
    by (auto simp: autotune_def tune_item_def)
  also have "\<dots> = ((ch \<or> py_str_opt (map_of c (fst x)) \<noteq> py_str (snd x)) \<or>
      (\<exists>kv \<in> set T. py_str_opt (map_of (AList.update (fst x) (snd x) c) (fst kv)) \<noteq> py_str (snd kv)))"
    using Cons.prems by (subst Cons.IH) simp_all
  finally show ?case using other by auto
qed

lemma plain_chars:
  assumes "\<forall>c \<in> set s. \<not> is_space c \<and> c \<noteq> CHR ''#'' \<and> c \<noteq> CHR 0x0A"
  shows "plain s"
proof (cases "s = []")
  case True
  then show ?thesis by (simp add: plain_def)
next
  case False
  then have "\<not> is_space (hd s)" "\<not> is_space (last s)" using assms by simp_all
  then have "strip ([] @ s @ []) = s" using False by (intro strip_core) simp_all
  then show ?thesis using assms by (auto simp: plain_def)
qed

lemma number_chars:
  "c \<in> set ''-0123456789MB'' \<Longrightarrow> \<not> is_space c \<and> c \<noteq> CHR ''#'' \<and> c \<noteq> CHR 0x0A"
  by (auto simp: is_space_def)

lemma str_int_chars: "set (str_int i) \<subseteq> set ''-0123456789MB''"
proof (cases "i < 0")
  case True
  have "set (str_nat (nat (- i))) \<subseteq> set ''-0123456789MB''"
    using str_nat_digits [of "nat (- i)"] by (rule subset_trans) auto
  then show ?thesis using True by (simp add: str_int_def)
next
  case False
  have "set (str_nat (nat i)) \<subseteq> set ''-0123456789MB''"
    using str_nat_digits [of "nat i"] by (rule subset_trans) auto
  then show ?thesis using False by (simp add: str_int_def)
qed

lemma plain_str_int: "plain (str_int i @ ''MB'')" "plain (str_int i)"
proof -
  have 1: "\<forall>c \<in> set (str_int i). \<not> is_space c \<and> c \<noteq> CHR ''#'' \<and> c \<noteq> CHR 0x0A"
    using str_int_chars [of i] number_chars by blast
  have 2: "\<forall>c \<in> set ''MB''. \<not> is_space c \<and> c \<noteq> CHR ''#'' \<and> c \<noteq> CHR 0x0A"
    by (simp add: is_space_def)
  have 3: "\<forall>c \<in> set (str_int i @ ''MB''). \<not> is_space c \<and> c \<noteq> CHR ''#'' \<and> c \<noteq> CHR 0x0A"
    using 1 2 unfolding set_append by blast
  show "plain (str_int i @ ''MB'')" using 3 by (rule plain_chars)
  show "plain (str_int i)" using 1 by (rule plain_chars)
qed

lemma plain_key_chars:
  "\<forall>c \<in> set s. \<not> is_space c \<and> c \<noteq> CHR ''#'' \<and> c \<noteq> CHR 0x0A \<and> c \<noteq> CHR ''='' \<Longrightarrow> plain_key s"
  using plain_chars [of s] by (auto simp: plain_key_def)

lemma plain_item_toMB: "plain_key k \<Longrightarrow> plain_item (k, toMB v)"
  by (simp add: plain_item_def toMB_def plain_str_int)

lemma plain_item_int: "plain_key k \<Longrightarrow> plain_item (k, PInt i)"
  by (simp add: plain_item_def plain_str_int)

lemma plain_item_str:
  "plain_key k \<Longrightarrow> \<forall>c \<in> set s. \<not> is_space c \<and> c \<noteq> CHR ''#'' \<and> c \<noteq> CHR 0x0A \<Longrightarrow> plain_item (k, PStr s)"
  by (simp add: plain_item_def plain_chars)

lemma estimate_result:
  assumes "estimate e = Inr cfg"
  shows "map fst cfg = tuning_keys" and "list_all plain_item cfg"
proof -
  from assms obtain a b c d where
    cfg: "cfg = [(''shared_buffers'', toMB a), (''effective_cache_size'', toMB b),
       (''work_mem'', toMB c), (''maintenance_work_mem'', toMB d),
       (''checkpoint_segments'', PInt 8), (''checkpoint_completion_target'', PStr ''0.7''),
       (''wal_buffers'', toMB (0x200 * 8)), (''constraint_exclusion'', PStr ''off''),
       (''default_statistics_target'', PInt 10), (''max_connections'', PInt 80)]"
    by (auto simp: estimate_def Let_def split: option.splits if_splits)
  show "map fst cfg = tuning_keys" by (simp add: cfg tuning_keys_def)
  show "list_all plain_item cfg"
    unfolding cfg
    by (simp add: plain_item_toMB plain_item_int plain_item_str plain_key_chars is_space_def)
qed

lemma update_plain:
  "plain_item (k, v) \<Longrightarrow> list_all plain_item d \<Longrightarrow> list_all plain_item (AList.update k v d)"
  using set_update_subset [of k v d] by (auto simp: list_all_iff)

lemma check_conf_plain:
  assumes "list_all plain_item (fst cc)"
  shows "list_all plain_item (fst (check_conf cc))"
proof -
  have lit: "plain_item (''wal_level'', PStr ''archive'')" "plain_item (''max_wal_senders'', PInt 5)"
    "plain_item (''wal_keep_segments'', PInt 64)" "plain_item (''archive_mode'', PStr ''on'')"
    "plain_item (''archive_command'', PStr (squoted ''/bin/true''))"
    "plain_item (''standard_conforming_strings'', PStr (squoted ''off''))"
    "plain_item (''bytea_output'', PStr (squoted ''escape''))"
    by (simp_all add: plain_item_int plain_item_str plain_key_chars is_space_def squoted_def)
  have 1: "list_all plain_item (fst (rule_wal_level cc))"
    using assms lit by (simp add: rule_wal_level_def update_plain)
  have 2: "list_all plain_item (fst (rule_max_wal_senders (rule_wal_level cc)))"
    using 1 lit by (simp add: rule_max_wal_senders_def update_plain)
  have 3: "list_all plain_item (fst (rule_wal_keep_segments (rule_max_wal_senders (rule_wal_level cc))))"
    using 2 lit by (simp add: rule_wal_keep_segments_def update_plain)
  have 4: "list_all plain_item (fst (rule_archive_mode (rule_wal_keep_segments
       (rule_max_wal_senders (rule_wal_level cc)))))"
    using 3 lit by (simp add: rule_archive_mode_def update_plain)
  have 5: "list_all plain_item (fst (rule_archive_command (rule_archive_mode (rule_wal_keep_segments
       (rule_max_wal_senders (rule_wal_level cc))))))"
    using 4 lit by (simp add: rule_archive_command_def update_plain)
  have 6: "list_all plain_item (fst (rule_standard_conforming_strings (rule_archive_command
       (rule_archive_mode (rule_wal_keep_segments (rule_max_wal_senders (rule_wal_level cc)))))))"
    using 5 lit by (simp add: rule_standard_conforming_strings_def update_plain)
  show ?thesis
    unfolding check_conf_def using 6 lit by (simp add: rule_bytea_output_def update_plain)
qed

lemma check_conf_distinct:
  assumes "distinct (map fst (fst cc))"
  shows "distinct (map fst (fst (check_conf cc)))"
proof -
  have 1: "distinct (map fst (fst (rule_wal_level cc)))"
    using assms by (simp add: rule_wal_level_def distinct_update)
  have 2: "distinct (map fst (fst (rule_max_wal_senders (rule_wal_level cc))))"
    using 1 by (simp add: rule_max_wal_senders_def distinct_update)
  have 3: "distinct (map fst (fst (rule_wal_keep_segments (rule_max_wal_senders (rule_wal_level cc)))))"
    using 2 by (simp add: rule_wal_keep_segments_def distinct_update)
  have 4: "distinct (map fst (fst (rule_archive_mode (rule_wal_keep_segments
       (rule_max_wal_senders (rule_wal_level cc))))))"
    using 3 by (simp add: rule_archive_mode_def distinct_update)
  have 5: "distinct (map fst (fst (rule_archive_command (rule_archive_mode (rule_wal_keep_segments
       (rule_max_wal_senders (rule_wal_level cc)))))))"
    using 4 by (simp add: rule_archive_command_def distinct_update)
  have 6: "distinct (map fst (fst (rule_standard_conforming_strings (rule_archive_command
       (rule_archive_mode (rule_wal_keep_segments (rule_max_wal_senders (rule_wal_level cc))))))))"
    using 5 by (simp add: rule_standard_conforming_strings_def distinct_update)
  show ?thesis
    unfolding check_conf_def using 6 by (simp add: rule_bytea_output_def distinct_update)
qed

lemma check_conf_nonempty: "fst (check_conf cc) \<noteq> []"
  using check_conf_values(3) [of cc] by auto

section \<open>The commit of the system check\<close>

lemma files_say [simp]: "files (say m w) = files w" "running (say m w) = running w"
  "events (say m w) = events w" "dirs (say m w) = dirs w" "out (say m w) = out w @ [m]"
  by (simp_all add: say_def)

lemma files_emit [simp]: "files (emit x w) = files w" "running (emit x w) = running w"
  "events (emit x w) = events w @ [x]" "dirs (emit x w) = dirs w" "out (emit x w) = out w"
  by (simp_all add: emit_def)

lemma files_do_db_start [simp]: "files (do_db_start e w) = files w"
  by (simp add: do_db_start_def Let_def)

lemma files_do_db_status [simp]: "files (do_db_status w) = files w"
  by (simp add: do_db_status_def)

lemma files_do_db_stop: "do_db_stop g e w = (r, w') \<Longrightarrow> files w' = files w"
  by (auto simp: do_db_stop_def Let_def split: if_splits)

lemma files_restart:
  assumes "seq (if running w then do_db_stop g e w else (None, w))
             (\<lambda>w6. (None, do_db_status (do_db_start e w6))) = (r, w')"
  shows "files w' = files w"
proof (cases "running w")
  case False
  then show ?thesis using assms by (auto simp: seq_def)
next
  case True
  obtain r1 w1 where s: "do_db_stop g e w = (r1, w1)" by (cases "do_db_stop g e w")
  have "files w1 = files w" using s by (rule files_do_db_stop)
  then show ?thesis using assms True s by (cases r1) (auto simp: seq_def)
qed

lemma seq_NoneD:
  assumes "seq r f = (None, w')"
  obtains w0 where "r = (None, w0)" "f w0 = (None, w')"
  using assms by (cases r; cases "fst r") (auto simp: seq_def)

lemma files_renamed:
  "q \<noteq> p \<Longrightarrow> q \<noteq> backup_name e p \<Longrightarrow> files (renamed e p w) q = files w q"
  by (simp add: renamed_def)

lemma write_step_conf:
  assumes "(case write_conf e w p [] d of
              (Inl err, w2) \<Rightarrow> (Some err, w2)
            | (Inr None, w2) \<Rightarrow> (None, w2)
            | (Inr (Some conf_bk), w2) \<Rightarrow> (None, say (msg @ conf_bk) w2)) = (None, w')"
    and "distinct (map fst d)" and "d \<noteq> []"
  shows "kwargs_ok d"
    and "files w' = (files (renamed e p w))(p \<mapsto> conf_text (dict_items (hash e) d))"
proof -
  obtain r w2 where rw: "write_conf e w p [] d = (r, w2)" by (cases "write_conf e w p [] d")
  obtain bk where bk: "r = Inr bk" using assms(1) unfolding rw by (cases r) auto
  note D = write_conf_InrD [OF rw [unfolded bk]]
  show k: "kwargs_ok d" using D(3,4) assms(2) by (simp add: kwargs_ok_def)
  show "files w' = (files (renamed e p w))(p \<mapsto> conf_text (dict_items (hash e) d))"
    using assms(1) unfolding write_conf_data [OF k assms(3) D(1)]
    by (cases "backup_of e p w") auto
qed

lemma write_step_table:
  assumes "(case write_conf e w p t [] of
              (Inl err, w2) \<Rightarrow> (Some err, w2)
            | (Inr None, w2) \<Rightarrow> (None, w2)
            | (Inr (Some conf_bk), w2) \<Rightarrow> (None, say (msg @ conf_bk) w2)) = (None, w')"
    and "t \<noteq> []"
  shows "files w' = (files (renamed e p w))(p \<mapsto> table_text t)"
proof -
  obtain r w2 where rw: "write_conf e w p t [] = (r, w2)" by (cases "write_conf e w p t []")
  obtain bk where bk: "r = Inr bk" using assms(1) unfolding rw by (cases r) auto
  note D = write_conf_InrD [OF rw [unfolded bk]]
  show ?thesis
    using assms(1) unfolding write_conf_table [OF assms(2) D(1)]
    by (cases "backup_of e p w") auto
qed

lemma conf_paths_differ [simp]:
  "D @ ''/pg_hba.conf'' \<noteq> D @ ''/postgresql.conf''"
  "D @ ''/postgresql.conf'' \<noteq> D @ ''/pg_hba.conf''"
  "D @ ''/pg_hba.conf'' \<noteq> backup_name e (D @ ''/postgresql.conf'')"
  "D @ ''/postgresql.conf'' \<noteq> backup_name e (D @ ''/pg_hba.conf'')"
proof -
  have 1: "backup_name e (D @ ''/postgresql.conf'') = D @ ''/postgresql.'' @ time_prefix e @ ''.conf''"
    using backup_name_ext [of "''conf''" e "D @ ''/postgresql''"] by simp
  have 2: "backup_name e (D @ ''/pg_hba.conf'') = D @ ''/pg_hba.'' @ time_prefix e @ ''.conf''"
    using backup_name_ext [of "''conf''" e "D @ ''/pg_hba''"] by simp
  show "D @ ''/pg_hba.conf'' \<noteq> D @ ''/postgresql.conf''" by simp
  show "D @ ''/postgresql.conf'' \<noteq> D @ ''/pg_hba.conf''" by simp
  show "D @ ''/pg_hba.conf'' \<noteq> backup_name e (D @ ''/postgresql.conf'')" unfolding 1 by simp
  show "D @ ''/postgresql.conf'' \<noteq> backup_name e (D @ ''/pg_hba.conf'')" unfolding 2 by simp
qed

lemma commit_nothing:
  "\<not> snd cc \<Longrightarrow> \<not> snd hh \<Longrightarrow>
   commit_changes g e cc hh w = (None, say ''INFO: No changes required.'' w)"
  by (simp add: commit_changes_def)

lemma commit_files:
  assumes c: "commit_changes g e cc hh w = (None, w')"
    and d: "distinct (map fst (fst cc))" and ne: "fst cc \<noteq> []"
    and hne: "snd hh \<Longrightarrow> fst hh \<noteq> []"
  shows "files w' (pcnf_pg_data g @ ''/postgresql.conf'') =
           (if snd cc then Some (conf_text (dict_items (hash e) (fst cc)))
            else files w (pcnf_pg_data g @ ''/postgresql.conf''))"
    and "files w' (pcnf_pg_data g @ ''/pg_hba.conf'') =
           (if snd hh then Some (table_text (fst hh))
            else files w (pcnf_pg_data g @ ''/pg_hba.conf''))"
    and "snd cc \<longrightarrow> kwargs_ok (fst cc)"
proof -
  let ?cp = "pcnf_pg_data g @ ''/postgresql.conf''" and ?hp = "pcnf_pg_data g @ ''/pg_hba.conf''"
  have goal: "files w' ?cp = (if snd cc then Some (conf_text (dict_items (hash e) (fst cc))) else files w ?cp)
      \<and> files w' ?hp = (if snd hh then Some (table_text (fst hh)) else files w ?hp)
      \<and> (snd cc \<longrightarrow> kwargs_ok (fst cc))"
  proof (cases "snd cc \<or> snd hh")
    case False
    then show ?thesis using c by (auto simp: commit_changes_def)
  next
    case True
    let ?w1 = "say ''INFO: Database needs to be restarted.'' w"
    from c True obtain w3 w5 w6 where
      a: "(if snd cc then
             (case write_conf e ?w1 ?cp [] (fst cc) of
                (Inl err, w2) \<Rightarrow> (Some err, w2)
              | (Inr None, w2) \<Rightarrow> (None, w2)
              | (Inr (Some conf_bk), w2) \<Rightarrow>
                  (None, say (''INFO: Wrote new general configuration. Backup as '' @ conf_bk) w2))
           else (None, ?w1)) = (None, w3)"
      and b: "(if snd hh then
             (case write_conf e w3 ?hp (fst hh) [] of
                (Inl err, w4) \<Rightarrow> (Some err, w4)
              | (Inr None, w4) \<Rightarrow> (None, w4)
              | (Inr (Some conf_bk), w4) \<Rightarrow>
                  (None, say (''INFO: Wrote new client auth configuration. Backup as '' @ conf_bk) w4))
           else (None, w3)) = (None, w5)"
      and r: "seq (if running w5 then do_db_stop g e w5 else (None, w5))
                (\<lambda>w6. (None, do_db_status (do_db_start e w6))) = (None, w')"
      unfolding commit_changes_def
      by (simp add: seq_def split: prod.splits option.splits if_splits)
    have f': "files w' = files w5" using r by (rule files_restart)
    have f3: "files w3 = (if snd cc then (files (renamed e ?cp ?w1))(?cp \<mapsto> conf_text (dict_items (hash e) (fst cc)))
         else files w)"
      using a write_step_conf(2) [OF _ d ne, where e=e and w="?w1" and p="?cp" and w'=w3] by (auto split: if_splits)
    have k: "snd cc \<longrightarrow> kwargs_ok (fst cc)"
      using a write_step_conf(1) [OF _ d ne, where e=e and w="?w1" and p="?cp" and w'=w3] by (auto split: if_splits)
    have f5: "files w5 = (if snd hh then (files (renamed e ?hp w3))(?hp \<mapsto> table_text (fst hh))
         else files w3)"
    proof (cases "snd hh")
      case True
      then show ?thesis
        using b write_step_table [OF _ hne, where e=e and w=w3 and p="?hp" and w'=w5] by simp
    next
      case False
      then show ?thesis using b by simp
    qed
    have 1: "files w5 ?hp = (if snd hh then Some (table_text (fst hh)) else files w ?hp)"
      by (simp add: f5 f3 files_renamed)
    have 2: "files w5 ?cp = (if snd cc then Some (conf_text (dict_items (hash e) (fst cc))) else files w ?cp)"
      by (simp add: f5 f3 files_renamed)
    show ?thesis using 1 2 k f' by simp
  qed
  from goal show "files w' ?cp = (if snd cc then Some (conf_text (dict_items (hash e) (fst cc))) else files w ?cp)"
    and "files w' ?hp = (if snd hh then Some (table_text (fst hh)) else files w ?hp)"
    and "snd cc \<longrightarrow> kwargs_ok (fst cc)" by simp_all
qed

section \<open>A second system check\<close>

lemma plan_unfold:
  "system_check_plan g e a w =
     (case get_conf w (pcnf_pg_data g @ ''/postgresql.conf'') of
        Inl err \<Rightarrow> Inl err
      | Inr conf \<Rightarrow>
          (case tuning_items e a of
             Inl err \<Rightarrow> Inl err
           | Inr T \<Rightarrow>
               (case files w (pcnf_pg_data g @ ''/pg_hba.conf'') of
                  None \<Rightarrow> Inl (IOError ''No such file or directory'')
                | Some body \<Rightarrow>
                    Inr (check_conf (autotune T (conf, False)),
                         check_hba (parse_hba (readlines body))))))"
  by (auto simp: system_check_plan_def tuning_items_def autotune_def
        split: sum.splits option.splits)

lemma tuning_items_result:
  assumes "tuning_items e a = Inr T"
  shows "distinct (map fst T)" and "set (map fst T) \<inter> set policy_keys = {}"
    and "list_all plain_item T"
proof -
  have "distinct (map fst T) \<and> set (map fst T) \<inter> set policy_keys = {} \<and> list_all plain_item T"
  proof (cases a)
    case False
    then show ?thesis using assms by (simp add: tuning_items_def)
  next
    case True
    then obtain cfg where cfg: "estimate e = Inr cfg" "T = dict_items (hash e) cfg"
      using assms by (auto simp: tuning_items_def split: sum.splits)
    have k: "map fst cfg = tuning_keys" and p: "list_all plain_item cfg"
      using estimate_result [OF cfg(1)] by simp_all
    have "distinct (map fst cfg)" unfolding k by (simp add: tuning_keys_def)
    moreover have "set (map fst T) = set tuning_keys"
      unfolding cfg(2) using k by (metis dict_items_set set_map)
    moreover have "set tuning_keys \<inter> set policy_keys = {}"
      by (simp add: tuning_keys_def policy_keys_def)
    ultimately show ?thesis using p cfg(2) by simp
  qed
  then show "distinct (map fst T)" and "set (map fst T) \<inter> set policy_keys = {}"
    and "list_all plain_item T" by simp_all
qed

lemma map_of_rev_distinct:
  "distinct (map fst T) \<Longrightarrow> map_of (rev T) = map_of T"
  by (rule map_of_inject_set [THEN iffD2]) (simp_all add: rev_map [symmetric])

lemma autotune_map:
  "distinct (map fst T) \<Longrightarrow> map_of (fst (autotune T cc)) = map_of (fst cc) ++ map_of T"
  by (simp add: autotune_fst fold_upd_map_of map_of_rev_distinct)

lemma second_pass:
  assumes conf: "list_all (\<lambda>kv. is_str (snd kv)) conf"
    and T: "distinct (map fst T)" "set (map fst T) \<inter> set policy_keys = {}"
    and r: "map_of conf2 = as_read (map_of (fst (check_conf (autotune T (conf, False)))))"
  shows "\<not> snd (check_conf (autotune T (conf2, False)))"
proof -
  let ?M = "map_of (fst (check_conf (autotune T (conf, False))))"
  have notpol: "k \<notin> set policy_keys" if "k \<in> fst ` set T" for k
    using that T(2) by auto
  have nottun: "map_of T k = None" if "k \<in> set policy_keys" for k
    using that T(2) by (auto simp: map_of_eq_None_iff)
  have tuned: "?M (fst kv) = Some (snd kv)" if "kv \<in> set T" for kv
  proof -
    have "?M (fst kv) = map_of (fst (autotune T (conf, False))) (fst kv)"
      using notpol that by (intro check_conf_other) auto
    also have "\<dots> = Some (snd kv)"
    proof -
      have "(fst kv, snd kv) \<in> set T" using that by simp
      then have m: "map_of T (fst kv) = Some (snd kv)" using T(1) by (simp only: map_of_eq_Some_iff)
      show ?thesis by (simp add: autotune_map [OF T(1)] map_add_def m)
    qed
    finally show ?thesis .
  qed
  have 1: "\<not> snd (autotune T (conf2, False))"
    using tuned by (simp add: autotune_flag [OF T(1)] r as_read_def)
  have strs: "\<forall>k \<in> set policy_keys. \<forall>v.
      map_of (fst (autotune T (conf, False))) k = Some v \<longrightarrow> is_str v"
  proof (intro ballI allI impI)
    fix k v
    assume "k \<in> set policy_keys" and "map_of (fst (autotune T (conf, False))) k = Some v"
    then have "map_of conf k = Some v" using nottun by (simp add: autotune_map [OF T(1)] map_add_def)
    then have "(k, v) \<in> set conf" by (rule map_of_SomeD)
    then show "is_str v" using conf by (auto simp: list_all_iff)
  qed
  have "violated (map_of (fst (autotune T (conf2, False)))) = violated (as_read ?M)"
    by (rule violated_cong) (simp add: autotune_map [OF T(1)] map_add_def nottun r)
  then have 2: "\<not> violated (map_of (fst (autotune T (conf2, False))))"
    using check_conf_settled [OF strs] by simp
  show ?thesis using 1 2 by (simp add: check_conf_flag)
qed

subsection \<open>The rule table read back\<close>

lemma readlines_append:
  "T = [] \<or> last T = CHR 0x0A \<Longrightarrow> readlines (T @ R) = readlines T @ readlines R"
proof (induction T)
  case Nil
  then show ?case by simp
next
  case (Cons c cs)
  show ?case
  proof (cases "c = CHR 0x0A")
    case True
    then have "cs = [] \<or> last cs = CHR 0x0A" using Cons.prems by (auto split: if_splits)
    then show ?thesis using Cons.IH True by simp
  next
    case False
    then have cs: "cs \<noteq> []" "last cs = CHR 0x0A" using Cons.prems by (auto split: if_splits)
    then have ih: "readlines (cs @ R) = readlines cs @ readlines R" using Cons.IH by simp
    have "readlines cs \<noteq> []" using cs(1) by (cases cs) (auto split: list.splits)
    then show ?thesis using ih False by (cases "readlines cs") auto
  qed
qed

lemma parse_hba_append: "parse_hba (a @ b) = parse_hba a @ parse_hba b"
  by (induction a) (auto simp: Let_def)

lemma table_text_end: "table_text t = [] \<or> last (table_text t) = CHR 0x0A"
  by (induction t rule: rev_induct) (auto simp: table_text_def)

lemma replication_line:
  "parse_hba (readlines (join [CHR 0x09] replication_cfg @ [CHR 0x0A])) = [replication_cfg]"
  by (simp add: replication_cfg_def line_eval hba_fields_def)

lemma appended_rule_read:
  "replication_cfg \<in> set (parse_hba (readlines (table_text (t @ [replication_cfg]))))"
proof -
  have "table_text (t @ [replication_cfg]) =
      table_text t @ (join [CHR 0x09] replication_cfg @ [CHR 0x0A])"
    by (simp add: table_text_def)
  then show ?thesis
    using readlines_append [OF table_text_end, of t] replication_line
    by (simp add: parse_hba_append)
qed

lemma check_hba_settled:
  "\<not> snd (check_hba (parse_hba (readlines (if snd (check_hba t) then table_text (fst (check_hba t)) else body))))
   \<or> (\<not> snd (check_hba t) \<and> t \<noteq> parse_hba (readlines body))"
  using appended_rule_read [of t] by (auto simp: check_hba_def)

lemma get_conf_files_cong:
  "files w' p = files w p \<Longrightarrow> get_conf w' p = get_conf w p"
  by (simp add: get_conf_def)

lemma do_system_check_success:
  assumes "do_system_check g e a w = (None, w1)"
  obtains cc hh w0 where "system_check_plan g e a w = Inr (cc, hh)"
    and "commit_changes g e cc hh w = (None, w0)" and "w1 = say ''System check finished'' w0"
proof -
  from assms obtain cc hh where p: "system_check_plan g e a w = Inr (cc, hh)"
    by (auto simp: do_system_check_def split: sum.splits)
  then have "seq (commit_changes g e cc hh w) (\<lambda>w1. (None, say ''System check finished'' w1)) = (None, w1)"
    using assms by (simp add: do_system_check_def)
  then obtain w0 where a: "commit_changes g e cc hh w = (None, w0)"
    and b: "(None, say ''System check finished'' w0) = (None, w1)"
    by (rule seq_NoneD) auto
  from b have "w1 = say ''System check finished'' w0" by simp
  then show ?thesis using that [OF p a] by simp
qed

lemma first_run:
  assumes "do_system_check g e autotuning w = (None, w1)"
  obtains conf T hbody where
    "get_conf w (pcnf_pg_data g @ ''/postgresql.conf'') = Inr conf"
    "tuning_items e autotuning = Inr T"
    "files w (pcnf_pg_data g @ ''/pg_hba.conf'') = Some hbody"
    "files w1 (pcnf_pg_data g @ ''/postgresql.conf'') =
       (if snd (check_conf (autotune T (conf, False)))
        then Some (conf_text (dict_items (hash e) (fst (check_conf (autotune T (conf, False))))))
        else files w (pcnf_pg_data g @ ''/postgresql.conf''))"
    "files w1 (pcnf_pg_data g @ ''/pg_hba.conf'') =
       (if snd (check_hba (parse_hba (readlines hbody)))
        then Some (table_text (fst (check_hba (parse_hba (readlines hbody)))))
        else Some hbody)"
    "distinct (map fst (fst (check_conf (autotune T (conf, False)))))"
    "list_all plain_item (fst (check_conf (autotune T (conf, False))))"
proof -
  let ?cp = "pcnf_pg_data g @ ''/postgresql.conf''" and ?hp = "pcnf_pg_data g @ ''/pg_hba.conf''"
  obtain cc hh w0 where plan: "system_check_plan g e autotuning w = Inr (cc, hh)"
    and commit: "commit_changes g e cc hh w = (None, w0)"
    and w1: "w1 = say ''System check finished'' w0"
    using assms by (rule do_system_check_success)
  obtain conf where conf: "get_conf w ?cp = Inr conf"
    using plan unfolding plan_unfold by (cases "get_conf w ?cp") simp_all
  obtain T where T: "tuning_items e autotuning = Inr T"
    using plan unfolding plan_unfold conf by (cases "tuning_items e autotuning") simp_all
  obtain hbody where hbody: "files w ?hp = Some hbody"
    using plan unfolding plan_unfold conf T by (cases "files w ?hp") simp_all
  have cc: "cc = check_conf (autotune T (conf, False))"
    and hh: "hh = check_hba (parse_hba (readlines hbody))"
    using plan unfolding plan_unfold conf T hbody by simp_all
  note Tr = tuning_items_result [OF T]
  obtain cbody where cdist: "distinct (map fst conf)" and cplain: "list_all plain_item conf"
    using get_conf_result [OF conf] by blast
  have sdist: "distinct (map fst (fst (autotune T (conf, False))))"
    using cdist by (simp add: autotune_fst fold_upd_distinct)
  have "set (fold upd T conf) \<subseteq> set conf \<union> set T" by (rule fold_upd_subset)
  then have splain: "list_all plain_item (fst (autotune T (conf, False)))"
    using cplain Tr(3) unfolding autotune_fst list_all_iff by auto
  have ccdist: "distinct (map fst (fst cc))" unfolding cc using sdist by (rule check_conf_distinct)
  have ccplain: "list_all plain_item (fst cc)" unfolding cc using splain by (rule check_conf_plain)
  have ccne: "fst cc \<noteq> []" unfolding cc by (rule check_conf_nonempty)
  have hhne: "fst hh \<noteq> []" if "snd hh"
    using that unfolding hh check_hba_def by (simp split: if_splits)
  have files1: "files w1 = files w0" by (simp add: w1)
  have fc: "files w1 ?cp = (if snd cc then Some (conf_text (dict_items (hash e) (fst cc))) else files w ?cp)"
    unfolding files1 by (rule commit_files(1) [OF commit ccdist ccne hhne])
  have fh: "files w1 ?hp = (if snd hh then Some (table_text (fst hh)) else files w ?hp)"
    unfolding files1 by (rule commit_files(2) [OF commit ccdist ccne hhne])
  show ?thesis
    by (rule that [OF conf T hbody fc [unfolded cc] fh [unfolded hh hbody] ccdist [unfolded cc] ccplain [unfolded cc]])
qed

lemma second_conf:
  assumes conf: "get_conf w cp = Inr conf" and T: "tuning_items e autotuning = Inr T"
    and fc: "files w1 cp =
       (if snd (check_conf (autotune T (conf, False)))
        then Some (conf_text (dict_items (hash e) (fst (check_conf (autotune T (conf, False))))))
        else files w cp)"
    and d: "distinct (map fst (fst (check_conf (autotune T (conf, False)))))"
    and p: "list_all plain_item (fst (check_conf (autotune T (conf, False))))"
  obtains conf2 where "get_conf w1 cp = Inr conf2"
    and "\<not> snd (check_conf (autotune T (conf2, False)))"
proof (cases "snd (check_conf (autotune T (conf, False)))")
  case True
  note Tr = tuning_items_result [OF T]
  obtain cbody where cstr: "list_all (\<lambda>kv. is_str (snd kv)) conf"
    using get_conf_result [OF conf] by blast
  obtain d' where d': "get_conf_lines cp (readlines (conf_text (dict_items (hash e)
        (fst (check_conf (autotune T (conf, False))))))) [] = Inr d'"
    and m: "map_of d' = map_of (stringified (fst (check_conf (autotune T (conf, False)))))"
    using read_written [OF d p] by blast
  have "files w1 cp = Some (conf_text (dict_items (hash e) (fst (check_conf (autotune T (conf, False))))))"
    using fc True by simp
  then have g: "get_conf w1 cp = Inr d'" unfolding get_conf_def d' [symmetric] by simp
  have "map_of d' = as_read (map_of (fst (check_conf (autotune T (conf, False)))))"
    unfolding m by (rule ext) (simp add: stringified_map_of as_read_def)
  then have "\<not> snd (check_conf (autotune T (d', False)))"
    by (rule second_pass [OF cstr Tr(1,2)])
  then show ?thesis using that g by blast
next
  case False
  then have "files w1 cp = files w cp" using fc by simp
  then have "get_conf w1 cp = Inr conf" using conf by (simp add: get_conf_def)
  then show ?thesis using that False by blast
qed

lemma second_hba:
  assumes "files w1 hp =
       (if snd (check_hba (parse_hba (readlines hbody)))
        then Some (table_text (fst (check_hba (parse_hba (readlines hbody)))))
        else Some hbody)"
  obtains hbody2 where "files w1 hp = Some hbody2"
    and "\<not> snd (check_hba (parse_hba (readlines hbody2)))"
proof (cases "snd (check_hba (parse_hba (readlines hbody)))")
  case True
  then have f: "fst (check_hba (parse_hba (readlines hbody))) = parse_hba (readlines hbody) @ [replication_cfg]"
    unfolding check_hba_def by (simp split: if_splits)
  have "\<not> snd (check_hba (parse_hba (readlines (table_text (parse_hba (readlines hbody) @ [replication_cfg])))))"
    using appended_rule_read [of "parse_hba (readlines hbody)"] unfolding check_hba_def by simp
  then show ?thesis using that assms True f by simp
next
  case False
  then show ?thesis using that assms by simp
qed

text \<open>
  C5. A system check that ran to its end is followed by one that finds nothing
  to do: on the host the first run leaves, the plan of the second run has neither
  \<open>changed\<close> nor \<open>hba_changed\<close>, and the second run prints that no changes are
  required, writes no file and issues no command.
\<close>

theorem system_check_idempotent:
  assumes "do_system_check g e autotuning w = (None, w1)"
  shows "(\<exists>cc hh. system_check_plan g e autotuning w1 = Inr (cc, hh) \<and> \<not> snd cc \<and> \<not> snd hh)
       \<and> do_system_check g e autotuning w1 =
           (None, say ''System check finished'' (say ''INFO: No changes required.'' w1))"
proof -
  obtain conf T hbody where conf: "get_conf w (pcnf_pg_data g @ ''/postgresql.conf'') = Inr conf"
    and T: "tuning_items e autotuning = Inr T"
    and fc: "files w1 (pcnf_pg_data g @ ''/postgresql.conf'') =
       (if snd (check_conf (autotune T (conf, False)))
        then Some (conf_text (dict_items (hash e) (fst (check_conf (autotune T (conf, False))))))
        else files w (pcnf_pg_data g @ ''/postgresql.conf''))"
    and fh: "files w1 (pcnf_pg_data g @ ''/pg_hba.conf'') =
       (if snd (check_hba (parse_hba (readlines hbody)))
        then Some (table_text (fst (check_hba (parse_hba (readlines hbody)))))
        else Some hbody)"
    and d: "distinct (map fst (fst (check_conf (autotune T (conf, False)))))"
    and p: "list_all plain_item (fst (check_conf (autotune T (conf, False))))"
    using first_run [OF assms] by metis
  obtain conf2 where conf2: "get_conf w1 (pcnf_pg_data g @ ''/postgresql.conf'') = Inr conf2"
    and pass2: "\<not> snd (check_conf (autotune T (conf2, False)))"
    using second_conf [OF conf T fc d p] by metis
  obtain hbody2 where hbody2: "files w1 (pcnf_pg_data g @ ''/pg_hba.conf'') = Some hbody2"
    and hpass2: "\<not> snd (check_hba (parse_hba (readlines hbody2)))"
    using second_hba [OF fh] by metis
  have plan2: "system_check_plan g e autotuning w1 =
      Inr (check_conf (autotune T (conf2, False)), check_hba (parse_hba (readlines hbody2)))"
    unfolding plan_unfold conf2 T hbody2 by simp
  have run2: "do_system_check g e autotuning w1 =
      (None, say ''System check finished'' (say ''INFO: No changes required.'' w1))"
    unfolding do_system_check_def plan2 by (simp add: commit_nothing [OF pass2 hpass2] seq_def)
  show ?thesis using plan2 pass2 hpass2 run2 by simp
qed

lemma running_renamed [simp]: "running (renamed e p w) = running w"
  by (simp add: renamed_def)

lemma fst_seq: "fst (seq r f) = None \<longleftrightarrow> fst r = None \<and> fst (f (snd r)) = None"
  by (cases r; cases "fst r") (auto simp: seq_def)

lemma dirs_write_conf [simp]: "dirs (snd (write_conf e w p t d)) = dirs w"
  by (auto simp: write_conf_def rename_def open_write_def split: sum.splits if_splits)

lemma conf_dirs_agree:
  "dirname (D @ ''/pg_hba.conf'') = dirname (D @ ''/postgresql.conf'')"
  using dirname_suffix [of "''pg_hba.conf''" "''postgresql.conf''" "D @ ''/''"] by simp

lemma conf_writable:
  assumes "parent_exists w (D @ ''/postgresql.conf'')"
  shows "writable e w (D @ ''/postgresql.conf'')" and "writable e w (D @ ''/pg_hba.conf'')"
proof -
  show "writable e w (D @ ''/postgresql.conf'')"
    using writable_ext [of "''conf''" w "D @ ''/postgresql''" e] assms by simp
  have "parent_exists w (D @ ''/pg_hba.conf'')"
    using assms by (simp add: parent_exists_def conf_dirs_agree)
  then show "writable e w (D @ ''/pg_hba.conf'')"
    using writable_ext [of "''conf''" w "D @ ''/pg_hba''" e] by simp
qed

lemma commit_returns:
  assumes "kwargs_ok (fst cc)" and "fst cc \<noteq> []" and "snd hh \<Longrightarrow> fst hh \<noteq> []"
    and "pcnf_data_directory g = Some dd" and "dd \<noteq> []"
    and "parent_exists w (pcnf_pg_data g @ ''/postgresql.conf'')"
  shows "fst (commit_changes g e cc hh w) = None"
proof -
  let ?cp = "pcnf_pg_data g @ ''/postgresql.conf''" and ?hp = "pcnf_pg_data g @ ''/pg_hba.conf''"
  have stop: "fst (if running v then do_db_stop g e v else (None, v)) = None" for v
    using assms(4,5) by (simp add: do_db_stop_def Let_def)
  have wr: "writable e v ?cp" "writable e v ?hp" if "dirs v = dirs w" for v
    using conf_writable [of v "pcnf_pg_data g" e] parent_exists_cong [OF that] assms(6) by simp_all
  have a: "fst (if snd cc then
             (case write_conf e v ?cp [] (fst cc) of
                (Inl err, w2) \<Rightarrow> (Some err, w2)
              | (Inr None, w2) \<Rightarrow> (None, w2)
              | (Inr (Some conf_bk), w2) \<Rightarrow> (None, say (m @ conf_bk) w2))
           else (None, v)) = None" if "dirs v = dirs w" for v m
    by (cases "backup_of e ?cp v") (simp_all add: write_conf_data [OF assms(1,2) wr(1) [OF that]])
  have da: "dirs (snd (if snd cc then
             (case write_conf e v ?cp [] (fst cc) of
                (Inl err, w2) \<Rightarrow> (Some err, w2)
              | (Inr None, w2) \<Rightarrow> (None, w2)
              | (Inr (Some conf_bk), w2) \<Rightarrow> (None, say (m @ conf_bk) w2))
           else (None, v))) = dirs v" for v m
    using dirs_write_conf [of e v ?cp "[]" "fst cc"]
    by (cases "write_conf e v ?cp [] (fst cc)") (auto split: sum.splits option.splits)
  have b: "fst (if snd hh then
             (case write_conf e v ?hp (fst hh) [] of
                (Inl err, w4) \<Rightarrow> (Some err, w4)
              | (Inr None, w4) \<Rightarrow> (None, w4)
              | (Inr (Some conf_bk), w4) \<Rightarrow> (None, say (m @ conf_bk) w4))
           else (None, v)) = None" if "dirs v = dirs w" for v m
  proof (cases "snd hh")
    case True
    then show ?thesis
      by (cases "backup_of e ?hp v") (simp_all add: write_conf_table [OF assms(3) wr(2) [OF that]])
  next
    case False
    then show ?thesis by simp
  qed
  show ?thesis
  proof (cases "snd cc \<or> snd hh")
    case True
    have "fst (seq (None, say ''INFO: Database needs to be restarted.'' w)
       (\<lambda>w1. seq (if snd cc then
               (case write_conf e w1 (pcnf_pg_data g @ ''/postgresql.conf'') [] (fst cc) of
                  (Inl err, w2) \<Rightarrow> (Some err, w2)
                | (Inr None, w2) \<Rightarrow> (None, w2)
                | (Inr (Some conf_bk), w2) \<Rightarrow>
                    (None, say (''INFO: Wrote new general configuration. Backup as '' @ conf_bk) w2))
             else (None, w1)) (\<lambda>w3.
        seq (if snd hh then
               (case write_conf e w3 (pcnf_pg_data g @ ''/pg_hba.conf'') (fst hh) [] of
                  (Inl err, w4) \<Rightarrow> (Some err, w4)
                | (Inr None, w4) \<Rightarrow> (None, w4)
                | (Inr (Some conf_bk), w4) \<Rightarrow>
                    (None, say (''INFO: Wrote new client auth configuration. Backup as '' @ conf_bk) w4))
             else (None, w3)) (\<lambda>w5.
        seq (if running w5 then do_db_stop g e w5 else (None, w5)) (\<lambda>w6.
        (None, do_db_status (do_db_start e w6))))))) = None"
      unfolding fst_seq by (simp only: a b da stop files_say fst_conv snd_conv simp_thms)
    then show ?thesis using True unfolding commit_changes_def by simp
  next
    case False
    then show ?thesis unfolding commit_changes_def by simp
  qed
qed

lemma fresh_plan:
  "system_check_plan example_gate example_env False fresh_world =
     Inr (([(''max_connections'', PStr ''100''), (''wal_level'', PStr ''archive''),
            (''max_wal_senders'', PInt 5), (''wal_keep_segments'', PInt 64),
            (''archive_mode'', PStr ''on''), (''archive_command'', PStr (squoted ''/bin/true'')),
            (''standard_conforming_strings'', PStr (squoted ''off'')),
            (''bytea_output'', PStr (squoted ''escape''))], True),
          ([[''local'', ''all'', ''all'', ''peer''], replication_cfg], True))"
proof -
  have c: "get_conf fresh_world ''/var/lib/pgsql/data/postgresql.conf'' =
      Inr [(''max_connections'', PStr ''100''), (''wal_level'', PStr ''minimal'')]"
    by (simp add: get_conf_def fresh_world_def line_eval)
  have h: "files fresh_world ''/var/lib/pgsql/data/pg_hba.conf'' = Some bare_hba"
    by (simp add: fresh_world_def)
  have b: "parse_hba (readlines bare_hba) = [[''local'', ''all'', ''all'', ''peer'']]"
    by (simp add: bare_hba_def line_eval hba_fields_def)
  show ?thesis
    by (simp add: system_check_plan_def example_gate_def c h b check_conf_def rule_defs
          check_hba_def replication_cfg_def)
qed

theorem system_check_idempotent_witness:
  "fst (do_system_check example_gate example_env False fresh_world) = None
   \<and> (case system_check_plan example_gate example_env False fresh_world of
        Inl err \<Rightarrow> False | Inr (cc, hh) \<Rightarrow> snd cc \<and> snd hh)
   \<and> do_system_check example_gate example_env False
        (snd (do_system_check example_gate example_env False fresh_world)) =
       (None, say ''System check finished'' (say ''INFO: No changes required.''
          (snd (do_system_check example_gate example_env False fresh_world))))"
proof -
  let ?cc = "([(''max_connections'', PStr ''100''), (''wal_level'', PStr ''archive''),
            (''max_wal_senders'', PInt 5), (''wal_keep_segments'', PInt 64),
            (''archive_mode'', PStr ''on''), (''archive_command'', PStr (squoted ''/bin/true'')),
            (''standard_conforming_strings'', PStr (squoted ''off'')),
            (''bytea_output'', PStr (squoted ''escape''))], True)"
  let ?hh = "([[''local'', ''all'', ''all'', ''peer''], replication_cfg], True)"
  have "fst (commit_changes example_gate example_env ?cc ?hh fresh_world) = None"
    by (rule commit_returns [where dd="''/var/lib/pgsql/data''"])
       (simp_all add: kwargs_ok_def example_gate_def parent_exists_def dirname_def fresh_world_def)
  then have 1: "fst (do_system_check example_gate example_env False fresh_world) = None"
    unfolding do_system_check_def fresh_plan
    by (cases "commit_changes example_gate example_env ?cc ?hh fresh_world") (simp add: seq_def)
  then have "do_system_check example_gate example_env False fresh_world =
      (None, snd (do_system_check example_gate example_env False fresh_world))"
    by (metis prod.collapse)
  from system_check_idempotent [OF this] 1 show ?thesis
    by (simp add: fresh_plan)
qed

section \<open>Switching hot backups on and off\<close>


lemma files_remove_file [simp]:
  "files (remove_file q w) = (files w)(q := None)" "running (remove_file q w) = running w"
  "events (remove_file q w) = events w" "dirs (remove_file q w) = dirs w"
  by (simp_all add: remove_file_def)








section \<open>The backup of a file that is written over\<close>









section \<open>A file that is read and written back\<close>

lemma dropWhile_keeps: "c \<in> set s \<Longrightarrow> \<not> P c \<Longrightarrow> c \<in> set (dropWhile P s)"
  by (induction s) auto

lemma strip_keeps: "c \<in> set s \<Longrightarrow> \<not> is_space c \<Longrightarrow> c \<in> set (strip s)"
  unfolding strip_def by (simp add: dropWhile_keeps)

lemma parse_line_Some:
  assumes "CHR ''='' \<in> set (takeWhile (\<lambda>c. c \<noteq> CHR ''#'') l)"
  shows "\<exists>kv. parse_line l = Some kv"
proof -
  have "CHR ''='' \<in> set (strip (takeWhile (\<lambda>c. c \<noteq> CHR ''#'') l))"
    using assms by (rule strip_keeps) simp
  then show ?thesis by (simp add: parse_line_def split1_def)
qed

lemma parse_line_SomeD:
  assumes "parse_line l = Some kv"
  shows "CHR ''='' \<in> set (takeWhile (\<lambda>c. c \<noteq> CHR ''#'') l)"
proof (rule ccontr)
  assume "CHR ''='' \<notin> set (takeWhile (\<lambda>c. c \<noteq> CHR ''#'') l)"
  then have "CHR ''='' \<notin> set (strip (takeWhile (\<lambda>c. c \<noteq> CHR ''#'') l))"
    using strip_subset by blast
  then show False using assms by (simp add: parse_line_def split1_def)
qed

text \<open>The read returns exactly when every line is one it takes; how often a key
  occurs plays no part.\<close>

lemma read_succeeds:
  "list_all accepted ls \<Longrightarrow> get_conf_lines p ls acc = Inr (fold upd (entries ls) acc)"
proof (induction ls arbitrary: acc)
  case Nil
  then show ?case by (simp add: entries_def map_filter_simps)
next
  case (Cons l ls)
  show ?case
  proof (cases "strip l = [] \<or> startswith (strip l) ''#''")
    case True
    then show ?thesis using Cons by (simp add: entries_Cons)
  next
    case False
    then have "CHR ''='' \<in> set (takeWhile (\<lambda>c. c \<noteq> CHR ''#'') (strip l))"
      using Cons.prems by (auto simp: accepted_def)
    then obtain kv where kv: "parse_line (strip l) = Some kv" using parse_line_Some by blast
    show ?thesis
      using False kv Cons by (cases kv) (simp add: entries_Cons upd_def)
  qed
qed

lemma read_fails:
  "\<not> list_all accepted ls \<Longrightarrow> \<exists>err. get_conf_lines p ls acc = Inl err"
proof (induction ls arbitrary: acc)
  case Nil
  then show ?case by simp
next
  case (Cons l ls)
  show ?case
  proof (cases "accepted l")
    case True
    then have rest: "\<not> list_all accepted ls" using Cons.prems by simp
    show ?thesis
    proof (cases "strip l = [] \<or> startswith (strip l) ''#''")
      case True
      then show ?thesis using Cons.IH [OF rest] by simp
    next
      case False
      then have "CHR ''='' \<in> set (takeWhile (\<lambda>c. c \<noteq> CHR ''#'') (strip l))"
        using True by (auto simp: accepted_def)
      then obtain kv where kv: "parse_line (strip l) = Some kv" using parse_line_Some by blast
      show ?thesis using False kv Cons.IH [OF rest] by (cases kv) simp
    qed
  next
    case False
    then have "parse_line (strip l) = None"
      using parse_line_SomeD [of "strip l"] by (cases "parse_line (strip l)") (auto simp: accepted_def)
    then show ?thesis using False by (simp add: accepted_def)
  qed
qed

lemma last_assignment_wins:
  assumes "es = es1 @ (k, v) # es2" and "k \<notin> fst ` set es2"
  shows "map_of (rev es) k = Some v"
proof -
  have "map_of (rev es2) k = None" using assms(2) by (simp add: map_of_eq_None_iff)
  then show ?thesis unfolding assms(1) by (simp add: map_add_def)
qed

text \<open>
  C10. A file of which every line is blank, a comment or an assignment is read
  without error, whatever keys it repeats: the dictionary is the map of its
  assignments in reverse order, so the last line that assigns a key gives its
  value. Written back (the dictionary not being empty, without the keys \<open>self\<close>
  and \<open>conf_path\<close>, and the path one that can be written), the file holds one
  line \<open>key = value\<close> for every key, in the order of the dictionary's hash table
  and not of the file, and no \<open>#\<close> anywhere, so no comment or blank line is
  left; reading it again gives the same mapping.
\<close>

theorem rewrite_keeps_mapping_only:
  fixes w p old e
  defines "d \<equiv> fold upd (entries (readlines old)) []"
  assumes fl: "files w p = Some old" and ln: "list_all accepted (readlines old)"
  shows "get_conf w p = Inr d
       \<and> map_of d = map_of (rev (entries (readlines old)))
       \<and> (\<forall>es1 k v es2. entries (readlines old) = es1 @ (k, v) # es2 \<and> k \<notin> fst ` set es2 \<longrightarrow>
             map_of d k = Some v)
       \<and> distinct (map fst d)
       \<and> (d \<noteq> [] \<and> ''self'' \<notin> fst ` set d \<and> ''conf_path'' \<notin> fst ` set d \<and> writable e w p \<longrightarrow>
             fst (write_conf e w p [] d) = Inr (backup_of e p w)
           \<and> files (snd (write_conf e w p [] d)) p = Some (conf_text (dict_items (hash e) d))
           \<and> (\<exists>d'. get_conf (snd (write_conf e w p [] d)) p = Inr d' \<and> map_of d' = map_of d))
       \<and> CHR ''#'' \<notin> set (conf_text (dict_items (hash e) d))
       \<and> readlines (conf_text (dict_items (hash e) d)) =
           map (\<lambda>kv. fst kv @ '' = '' @ py_str (snd kv) @ [CHR 0x0A]) (dict_items (hash e) d)
       \<and> sorted (map (\<lambda>kv. hash e (fst kv)) (dict_items (hash e) d))
       \<and> mset (dict_items (hash e) d) = mset d"
proof -
  have g: "get_conf w p = Inr d"
    unfolding d_def get_conf_file [OF fl] using ln by (rule read_succeeds)
  obtain body where "files w p = Some body"
    and dist: "distinct (map fst d)" and pl: "list_all plain_item d"
    and str: "list_all (\<lambda>kv. is_str (snd kv)) d"
    using get_conf_result [OF g] by blast
  have 1: "map_of d = map_of (rev (entries (readlines old)))"
    unfolding d_def by (simp add: fold_upd_map_of)
  have 2: "\<forall>es1 k v es2. entries (readlines old) = es1 @ (k, v) # es2 \<and> k \<notin> fst ` set es2 \<longrightarrow>
             map_of d k = Some v"
  proof (intro allI impI)
    fix es1 k v es2
    assume a: "entries (readlines old) = es1 @ (k, v) # es2 \<and> k \<notin> fst ` set es2"
    show "map_of d k = Some v"
      unfolding 1 using last_assignment_wins [of "entries (readlines old)" es1 k v es2] a by simp
  qed
  have 3: "fst (write_conf e w p [] d) = Inr (backup_of e p w)
           \<and> files (snd (write_conf e w p [] d)) p = Some (conf_text (dict_items (hash e) d))
           \<and> (\<exists>d'. get_conf (snd (write_conf e w p [] d)) p = Inr d' \<and> map_of d' = map_of d)"
    if a: "d \<noteq> [] \<and> ''self'' \<notin> fst ` set d \<and> ''conf_path'' \<notin> fst ` set d \<and> writable e w p"
  proof -
    have kw: "kwargs_ok d" using dist a by (simp add: kwargs_ok_def)
    have ne: "d \<noteq> []" and wr: "writable e w p" using a by simp_all
    have "\<exists>d'. get_conf (snd (write_conf e w p [] d)) p = Inr d' \<and> map_of d' = map_of d"
      using write_then_read [OF kw ne pl wr] stringified_str [OF str] by auto
    then show ?thesis by (simp add: write_conf_data [OF kw ne wr])
  qed
  then have i3: "d \<noteq> [] \<and> ''self'' \<notin> fst ` set d \<and> ''conf_path'' \<notin> fst ` set d \<and> writable e w p \<longrightarrow>
             fst (write_conf e w p [] d) = Inr (backup_of e p w)
           \<and> files (snd (write_conf e w p [] d)) p = Some (conf_text (dict_items (hash e) d))
           \<and> (\<exists>d'. get_conf (snd (write_conf e w p [] d)) p = Inr d' \<and> map_of d' = map_of d)"
    by (rule impI)
  have pl': "list_all plain_item (dict_items (hash e) d)" using pl by simp
  have 4: "mset (dict_items (hash e) d) = mset d" by simp
  show ?thesis
    by (intro conjI)
       (rule g 1 2 dist i3 conf_text_no_hash [OF pl'] readlines_conf_text [OF pl']
          dict_items_sorted 4)+
qed

lemma commented_conf_read:
  "get_conf commented_world ''/etc/pg.conf'' = Inr [(''listen'', PStr ''3''), (''port'', PStr ''2'')]"
  by (simp add: get_conf_def commented_world_def commented_conf_def lines_text_def
        strip_def is_space_def startswith_def parse_line_def split1_def)

lemma commented_conf_accepted: "list_all accepted (readlines commented_conf)"
  by (simp add: commented_conf_def lines_text_def accepted_def strip_def is_space_def startswith_def)

lemma commented_writable: "writable reordering_env commented_world ''/etc/pg.conf''"
  using writable_ext [of "''conf''" commented_world "''/etc/pg''" reordering_env]
  by (simp add: parent_exists_def dirname_def commented_world_def example_world_def)

theorem rewrite_keeps_mapping_only_witness:
  "get_conf commented_world ''/etc/pg.conf'' = Inr [(''listen'', PStr ''3''), (''port'', PStr ''2'')]
   \<and> entries (readlines commented_conf) =
       [(''listen'', PStr ''1''), (''port'', PStr ''2''), (''listen'', PStr ''3'')]
   \<and> fst (write_conf reordering_env commented_world ''/etc/pg.conf'' []
         [(''listen'', PStr ''3''), (''port'', PStr ''2'')]) = Inr (Some ''/etc/pg.2012-07-04-09-05-03.conf'')
   \<and> files (snd (write_conf reordering_env commented_world ''/etc/pg.conf'' []
         [(''listen'', PStr ''3''), (''port'', PStr ''2'')])) ''/etc/pg.conf'' =
       Some (lines_text [''port = 2'', ''listen = 3''])
   \<and> CHR ''#'' \<notin> set (lines_text [''port = 2'', ''listen = 3''])"
proof -
  have f: "files commented_world ''/etc/pg.conf'' = Some commented_conf"
    by (simp add: commented_world_def)
  note t = rewrite_keeps_mapping_only [OF f commented_conf_accepted, where e=reordering_env]
  have d: "fold upd (entries (readlines commented_conf)) [] =
      [(''listen'', PStr ''3''), (''port'', PStr ''2'')]"
    using t [THEN conjunct1] commented_conf_read by simp
  have en: "entries (readlines commented_conf) =
       [(''listen'', PStr ''1''), (''port'', PStr ''2''), (''listen'', PStr ''3'')]"
    by (simp add: commented_conf_def lines_text_def entries_def map_filter_simps
          strip_def is_space_def startswith_def parse_line_def split1_def)
  have bo: "backup_of reordering_env ''/etc/pg.conf'' commented_world =
      Some ''/etc/pg.2012-07-04-09-05-03.conf''"
    using backup_name_ext [of "''conf''" reordering_env "''/etc/pg''"] f
    by (simp add: backup_of_def path_exists_def time_prefix_def reordering_env_def
          zfill2_def str_nat.simps digit_def)
  have tx: "conf_text (dict_items (hash reordering_env) [(''listen'', PStr ''3''), (''port'', PStr ''2'')])
      = lines_text [''port = 2'', ''listen = 3'']"
    by (simp add: reordering_env_def dict_items_def conf_text_def lines_text_def)
  have w: "fst (write_conf reordering_env commented_world ''/etc/pg.conf'' []
         [(''listen'', PStr ''3''), (''port'', PStr ''2'')]) = Inr (Some ''/etc/pg.2012-07-04-09-05-03.conf'')
     \<and> files (snd (write_conf reordering_env commented_world ''/etc/pg.conf'' []
         [(''listen'', PStr ''3''), (''port'', PStr ''2'')])) ''/etc/pg.conf'' =
       Some (lines_text [''port = 2'', ''listen = 3''])"
    using t [THEN conjunct2, THEN conjunct2, THEN conjunct2, THEN conjunct2, THEN conjunct1]
      commented_writable
    unfolding d bo tx by simp
  have h: "CHR ''#'' \<notin> set (lines_text [''port = 2'', ''listen = 3''])"
    using t [THEN conjunct2, THEN conjunct2, THEN conjunct2, THEN conjunct2, THEN conjunct2,
             THEN conjunct1]
    unfolding d tx .
  show ?thesis using commented_conf_read en w h by simp
qed

section \<open>Changing the archive command\<close>






lemma files_rmtree [simp]:
  "files (rmtree d w) p = (if within d p then None else files w p)"
  "dirs (rmtree d w) p = (if within d p then False else dirs w p)"
  "running (rmtree d w) = running w" "events (rmtree d w) = events w"
  by (simp_all add: rmtree_def)

lemma files_mkdir [simp]:
  "files (mkdir d w) = files w" "running (mkdir d w) = running w" "events (mkdir d w) = events w"
  "dirs (mkdir d w) = (dirs w)(d := True)"
  by (simp_all add: mkdir_def)















text \<open>A purge reaches the configuration file under every spelling of a directory
  above it, and the theorem's condition on the destination rules these out.\<close>

lemma within_aliases:
  "within ''/var/lib/pgsql/'' ''/var/lib/pgsql/data/postgresql.conf''"
  "within ''/var//lib/./pgsql'' ''/var/lib/pgsql/data/postgresql.conf''"
  "within ''/var/lib/pgsql/data/..'' ''/var/lib/pgsql/data/postgresql.conf''"
  "\<not> within ''/var/lib/pg'' ''/var/lib/pgsql/data/postgresql.conf''"
  "files (rmtree ''/var/lib/pgsql/'' example_world) ''/var/lib/pgsql/data/postgresql.conf'' = None"
  "\<not> outside ''/var/lib/pgsql/'' (pcnf_pg_data example_gate @ ''/postgresql.conf'')"
  by (simp_all add: outside_def within_def components_def absolute_def startswith_def
        example_gate_def)





end
